theory Spec2Isabelle
  imports Main "HOL-Library.AList"
begin

text \<open>
  A model of \<^verbatim>\<open>src/http.ts\<close>: the session registry of \<^verbatim>\<open>createMcpHttpServer\<close>, the
  dispatcher \<^verbatim>\<open>handleMcpRequest\<close>, the body collector \<^verbatim>\<open>parseBody\<close>, the listener's
  callback, and \<^verbatim>\<open>start\<close> and \<^verbatim>\<open>stop\<close>. The gateway's own code is translated
  line by line into functions on an explicit state. What the code calls but does not
  contain (the SDK's channel, \<^verbatim>\<open>JSON.parse\<close>, Node's HTTP server) is passed in: each
  function takes as arguments what those collaborators do during the call.
\<close>

section \<open>JSON text written by the gateway\<close>

text \<open>
  \<^verbatim>\<open>sendJson\<close> serialises its argument with \<^verbatim>\<open>JSON.stringify\<close>. The gateway only ever
  passes object literals built from strings, integers, \<^verbatim>\<open>null\<close> and nested objects, so
  these are the JSON values modelled. An object keeps its properties in insertion order.
\<close>

datatype json = JNull | JNumber int | JString string | JObject "(string \<times> json) list"

definition digit_char :: "nat \<Rightarrow> char" where
  "digit_char n = ''0123456789abcdef'' ! n"

function dec :: "nat \<Rightarrow> string" where
  "dec n = (if n < 10 then [digit_char n] else dec (n div 10) @ [digit_char (n mod 10)])"
  by pat_completeness auto
termination
  by (relation "measure id") auto

declare dec.simps [simp del]

definition number_to_string :: "int \<Rightarrow> string" where
  "number_to_string i = (if i < 0 then CHR ''-'' # dec (nat (- i)) else dec (nat i))"

text \<open>
  String quoting of \<^verbatim>\<open>JSON.stringify\<close>: the quotation mark and the backslash are escaped,
  the control characters get their short or \<^verbatim>\<open>\u00XX\<close> escapes, every other character is
  copied.
\<close>

definition quote_char :: "char \<Rightarrow> string" where
  "quote_char c =
     (if c = CHR 0x22 then [CHR 0x5C, CHR 0x22]
      else if c = CHR 0x5C then [CHR 0x5C, CHR 0x5C]
      else if c = CHR 0x08 then [CHR 0x5C, CHR ''b'']
      else if c = CHR 0x0C then [CHR 0x5C, CHR ''f'']
      else if c = CHR 0x0A then [CHR 0x5C, CHR ''n'']
      else if c = CHR 0x0D then [CHR 0x5C, CHR ''r'']
      else if c = CHR 0x09 then [CHR 0x5C, CHR ''t'']
      else if (of_char c :: nat) < 32
        then [CHR 0x5C, CHR ''u'', CHR ''0'', CHR ''0'',
              digit_char (of_char c div 16), digit_char (of_char c mod 16)]
      else [c])"

definition quote :: "string \<Rightarrow> string" where
  "quote s = [CHR 0x22] @ concat (map quote_char s) @ [CHR 0x22]"

fun stringify :: "json \<Rightarrow> string"
  and members :: "(string \<times> json) list \<Rightarrow> string" where
  "stringify JNull = ''null''"
| "stringify (JNumber i) = number_to_string i"
| "stringify (JString s) = quote s"
| "stringify (JObject kvs) = ''{'' @ members kvs @ ''}''"
| "members [] = []"
| "members [(k, v)] = quote k @ '':'' @ stringify v"
| "members ((k, v) # kv # kvs) = quote k @ '':'' @ stringify v @ '','' @ members (kv # kvs)"

text \<open>The error envelope of lines 77-81, 88-92 and 105-109 of \<^verbatim>\<open>http.ts\<close>.\<close>

definition envelope :: "int \<Rightarrow> string \<Rightarrow> json" where
  "envelope code message =
     JObject [(''jsonrpc'', JString ''2.0''),
              (''error'', JObject [(''code'', JNumber code), (''message'', JString message)]),
              (''id'', JNull)]"

definition not_found :: json where
  "not_found = JObject [(''error'', JString ''Not found'')]"

section \<open>Requests and responses\<close>

text \<open>
  A request as the handler reads it: the verb (\<^verbatim>\<open>req.method\<close>), the path name that
  \<^verbatim>\<open>new URL\<close> yields for \<^verbatim>\<open>req.url\<close> (line 97), the \<^verbatim>\<open>mcp-session-id\<close> header
  (absent: \<open>None\<close>), and the body stream. No encoding is set on the stream, so each
  \<^verbatim>\<open>data\<close> event carries a \<^verbatim>\<open>Buffer\<close>: an element of \<open>chunks\<close> is the bytes of one such
  event, each byte a \<open>char\<close>. The stream then ends, or emits \<^verbatim>\<open>error\<close> when
  \<open>stream_error\<close> is set.
\<close>

record request =
  req_method :: string
  pathname :: string
  mcp_session_id :: "string option"
  chunks :: "string list"
  stream_error :: bool

record response =
  statusCode :: nat
  contentType :: "string option"
  headersSent :: bool
  body :: string
  ended :: bool

definition new_response :: response where
  "new_response = \<lparr>statusCode = 200, contentType = None, headersSent = False,
                    body = [], ended = False\<rparr>"

definition sendJson :: "response \<Rightarrow> nat \<Rightarrow> json \<Rightarrow> response" where
  "sendJson res status data =
     res\<lparr>statusCode := status, contentType := Some ''application/json'',
         headersSent := True, body := body res @ stringify data, ended := True\<rparr>"

section \<open>The gateway state\<close>

text \<open>
  A channel (\<^verbatim>\<open>StreamableHTTPServerTransport\<close>) is an object of the SDK. The gateway holds
  references to such objects; a reference is the index of the object in \<open>heap\<close>, so two
  references are the same object exactly when they are equal numbers. Of the object the
  gateway reads only \<^verbatim>\<open>sessionId\<close>. \<open>closed\<close> records that the channel has fired its
  \<^verbatim>\<open>onclose\<close> callback, \<open>server\<close> is the engine instance connected to it.
\<close>

type_synonym chan = nat

record transport =
  sessionId :: "string option"
  closed :: bool
  server :: nat

text \<open>Calls the gateway makes on its collaborators, in the order it makes them.\<close>

datatype 'v event =
    Factory nat
  | Connect nat chan
  | ReadBody
  | HandleRequest chan "'v option"
  | CloseCall chan
  | Listen nat
  | ServerClose

datatype listener = Idle | Listening | Closing | Closed

text \<open>
  \<open>transports\<close> is the \<^verbatim>\<open>Map\<close> of line 23, as a list of entries in insertion order
  (the order \<^verbatim>\<open>transports.values()\<close> iterates in). \<^verbatim>\<open>Map.set\<close> is \<open>AList.update\<close>
  (an existing key keeps its place, a new key goes last), \<^verbatim>\<open>Map.delete\<close> is
  \<open>AList.delete\<close>, \<^verbatim>\<open>Map.has\<close> and \<^verbatim>\<open>Map.get\<close> are \<open>map_of\<close>. \<open>port\<close>, \<open>path\<close>
  and \<open>transports\<close> are the variables of the closure; the other fields are the world
  around it: the channel objects, the number of engine instances the factory has made,
  the listener, the calls made so far, and the lines written to the console.
\<close>

record 'v gateway =
  port :: nat
  path :: string
  transports :: "(string \<times> chan) list"
  heap :: "transport list"
  servers :: nat
  listener :: listener
  trace :: "'v event list"
  console :: "string list"

record options =
  opt_port :: "nat option"
  opt_path :: "string option"

definition createMcpHttpServer :: "options \<Rightarrow> 'v gateway" where
  "createMcpHttpServer options =
     \<lparr>port = (case opt_port options of None \<Rightarrow> 3000 | Some p \<Rightarrow> p),
      path = (case opt_path options of None \<Rightarrow> ''/mcp'' | Some p \<Rightarrow> p),
      transports = [], heap = [], servers = 0, listener = Idle, trace = [], console = []\<rparr>"

text \<open>
  \<^verbatim>\<open>transport.sessionId\<close>. A reference held by the gateway always names an object of the
  heap; for a number that names none the lookup yields no id.
\<close>

definition sessionId_of :: "'v gateway \<Rightarrow> chan \<Rightarrow> string option" where
  "sessionId_of g t = (if t < length (heap g) then sessionId (heap g ! t) else None)"

subsection \<open>The two callbacks (lines 57-60 and 63-68)\<close>

definition onsessioninitialized :: "chan \<Rightarrow> string \<Rightarrow> 'v gateway \<Rightarrow> 'v gateway" where
  "onsessioninitialized t sid g =
     g\<lparr>transports := AList.update sid t (transports g),
       console := console g @ [''Session initialized: '' @ sid]\<rparr>"

text \<open>\<^verbatim>\<open>if (transport.sessionId)\<close>: an unset id and the empty string are both falsy.\<close>

definition onclose :: "chan \<Rightarrow> 'v gateway \<Rightarrow> 'v gateway" where
  "onclose t g =
     (case sessionId_of g t of
        None \<Rightarrow> g
      | Some sid \<Rightarrow>
          if sid = [] then g
          else g\<lparr>transports := AList.delete sid (transports g),
                 console := console g @ [''Session closed: '' @ sid]\<rparr>)"

subsection \<open>The channel, as far as the gateway can observe it\<close>

text \<open>
  The SDK decides when a channel fires its callbacks. When it assigns the id it stores it
  in \<^verbatim>\<open>sessionId\<close> and calls \<^verbatim>\<open>onsessioninitialized\<close>; when it closes it calls
  \<^verbatim>\<open>onclose\<close>.
\<close>

datatype callback = SessionInitialized string | Close

definition assign_id :: "chan \<Rightarrow> string \<Rightarrow> 'v gateway \<Rightarrow> 'v gateway" where
  "assign_id t sid g = g\<lparr>heap := (heap g)[t := (heap g ! t)\<lparr>sessionId := Some sid\<rparr>]\<rparr>"

definition mark_closed :: "chan \<Rightarrow> 'v gateway \<Rightarrow> 'v gateway" where
  "mark_closed t g = g\<lparr>heap := (heap g)[t := (heap g ! t)\<lparr>closed := True\<rparr>]\<rparr>"

definition fire :: "chan \<Rightarrow> callback \<Rightarrow> 'v gateway \<Rightarrow> 'v gateway" where
  "fire t cb g =
     (case cb of
        SessionInitialized sid \<Rightarrow> onsessioninitialized t sid (assign_id t sid g)
      | Close \<Rightarrow> mark_closed t (onclose t g))"

text \<open>
  What the channel does with one exchange handed to it: the callbacks it fires, what it
  writes to the response (a status and a body, if it writes at all), and whether the
  promise of \<^verbatim>\<open>handleRequest\<close> rejects. The call
  \<^verbatim>\<open>transport.handleRequest(req, res, body)\<close> is recorded with the channel and the
  payload; the request and the response are handed over as they are.
\<close>

record exchange_env =
  fires :: "callback list"
  sends :: "(nat \<times> string) option"
  rejects :: bool

datatype failure = SyntaxError | StreamError | HandleError

definition transport_handleRequest ::
  "exchange_env \<Rightarrow> chan \<Rightarrow> 'v option \<Rightarrow> response \<Rightarrow> 'v gateway
     \<Rightarrow> (failure + unit) \<times> response \<times> 'v gateway" where
  "transport_handleRequest env t payload res g =
     (let g1 = g\<lparr>trace := trace g @ [HandleRequest t payload]\<rparr>;
          g2 = foldl (\<lambda>s cb. fire t cb s) g1 (fires env);
          res' = (case sends env of
                    None \<Rightarrow> res
                  | Some (status, text) \<Rightarrow>
                      res\<lparr>statusCode := status, headersSent := True, body := body res @ text\<rparr>)
      in (if rejects env then Inl HandleError else Inr (), res', g2))"

section \<open>The request handler\<close>

subsection \<open>Text from bytes\<close>

text \<open>
  A JavaScript string, as the list of its code points. \<^verbatim>\<open>body += chunk\<close> (line 28)
  appends \<^verbatim>\<open>chunk.toString()\<close>, the UTF-8 decoding of that one \<^verbatim>\<open>Buffer\<close>. The decoder
  reads a lead byte, then the continuation bytes it announces, each within the bounds
  \<open>lo\<close> and \<open>hi\<close> that the lead byte sets for the next one; a byte that fits nowhere, and
  a sequence cut short by another byte or by the end of the buffer, become U+FFFD. The
  state is the number of continuation bytes still needed, the code point so far, and the
  bounds.
\<close>

type_synonym jsstring = "nat list"

type_synonym utf8_state = "nat \<times> nat \<times> nat \<times> nat"

definition idle :: utf8_state where
  "idle = (0, 0, 0x80, 0xBF)"

definition lead :: "nat \<Rightarrow> nat list \<times> utf8_state" where
  "lead b =
     (if b < 0x80 then ([b], idle)
      else if 0xC2 \<le> b \<and> b \<le> 0xDF then ([], (1, b - 0xC0, 0x80, 0xBF))
      else if 0xE0 \<le> b \<and> b \<le> 0xEF then
        ([], (2, b - 0xE0, if b = 0xE0 then 0xA0 else 0x80, if b = 0xED then 0x9F else 0xBF))
      else if 0xF0 \<le> b \<and> b \<le> 0xF4 then
        ([], (3, b - 0xF0, if b = 0xF0 then 0x90 else 0x80, if b = 0xF4 then 0x8F else 0xBF))
      else ([0xFFFD], idle))"

definition step :: "utf8_state \<Rightarrow> nat \<Rightarrow> nat list \<times> utf8_state" where
  "step s b =
     (case s of (need, cp, lo, hi) \<Rightarrow>
        if need = 0 then lead b
        else if b < lo \<or> hi < b then (0xFFFD # fst (lead b), snd (lead b))
        else if need = 1 then ([cp * 64 + (b - 0x80)], idle)
        else ([], (need - 1, cp * 64 + (b - 0x80), 0x80, 0xBF)))"

fun decode_from :: "utf8_state \<Rightarrow> nat list \<Rightarrow> jsstring" where
  "decode_from s [] = (if fst s = 0 then [] else [0xFFFD])"
| "decode_from s (b # bs) = fst (step s b) @ decode_from (snd (step s b)) bs"

definition toString :: "string \<Rightarrow> jsstring" where
  "toString buffer = decode_from idle (map of_char buffer)"

subsection \<open>The body collector\<close>

text \<open>
  \<^verbatim>\<open>parseBody\<close> (lines 25-38). \<open>collected\<close> is \<^verbatim>\<open>body\<close> when the stream ends: the
  decodings of the chunks, each decoded on its own, one after the other. \<open>JSON_parse\<close> is
  the platform's \<^verbatim>\<open>JSON.parse\<close>: \<open>None\<close> when it throws.
\<close>

definition collected :: "request \<Rightarrow> jsstring" where
  "collected req = foldl (\<lambda>body chunk. body @ toString chunk) [] (chunks req)"

definition parseBody :: "(jsstring \<Rightarrow> 'v option) \<Rightarrow> request \<Rightarrow> failure + 'v option" where
  "parseBody JSON_parse req =
     (let text = collected req in
      if stream_error req then Inl StreamError
      else if text \<noteq> [] then
        (case JSON_parse text of None \<Rightarrow> Inl SyntaxError | Some v \<Rightarrow> Inr (Some v))
      else Inr None)"

text \<open>
  \<^verbatim>\<open>sessionId && transports.has(sessionId)\<close> followed by \<^verbatim>\<open>transports.get(sessionId)\<close>:
  the channel registered under the header's value, if the header is set, not empty, and a
  key of the registry.
\<close>

definition find_transport :: "string option \<Rightarrow> 'v gateway \<Rightarrow> chan option" where
  "find_transport sid g =
     (case sid of
        None \<Rightarrow> None
      | Some s \<Rightarrow> if s = [] then None else map_of (transports g) s)"

text \<open>
  Lines 54-70: the factory makes an engine instance, a channel is constructed with the two
  callbacks, and the engine is connected to it. The factory and \<^verbatim>\<open>connect\<close> are taken
  to return normally. The new channel is a new object: its reference is the next free
  index of the heap.
\<close>

definition createSession :: "'v gateway \<Rightarrow> chan \<times> 'v gateway" where
  "createSession g =
     (let mcpServer = servers g;
          t = length (heap g)
      in (t, g\<lparr>servers := Suc (servers g),
               heap := heap g @ [\<lparr>sessionId = None, closed = False, server = mcpServer\<rparr>],
               trace := trace g @ [Factory mcpServer, Connect mcpServer t]\<rparr>))"

definition handleMcpRequest ::
  "(jsstring \<Rightarrow> 'v option) \<Rightarrow> exchange_env \<Rightarrow> request \<Rightarrow> response \<Rightarrow> 'v gateway
     \<Rightarrow> (failure + unit) \<times> response \<times> 'v gateway" where
  "handleMcpRequest JSON_parse env req res g =
     (if req_method req = ''POST'' then
        (let (t, g1) = (case find_transport (mcp_session_id req) g of
                          Some t \<Rightarrow> (t, g)
                        | None \<Rightarrow> createSession g);
             g2 = g1\<lparr>trace := trace g1 @ [ReadBody]\<rparr>
         in case parseBody JSON_parse req of
              Inl e \<Rightarrow> (Inl e, res, g2)
            | Inr payload \<Rightarrow> transport_handleRequest env t payload res g2)
      else if req_method req = ''GET'' \<or> req_method req = ''DELETE'' then
        (case find_transport (mcp_session_id req) g of
           None \<Rightarrow>
             (Inr (), sendJson res 400 (envelope (- 32000) ''Invalid or missing session ID''), g)
         | Some t \<Rightarrow> transport_handleRequest env t None res g)
      else (Inr (), sendJson res 405 (envelope (- 32000) ''Method not allowed''), g))"

text \<open>
  The listener's callback (lines 96-115), on the fresh response Node hands it. The
  failure caught at line 102 is logged, and answered only if no headers have been sent.
\<close>

definition requestListener ::
  "(jsstring \<Rightarrow> 'v option) \<Rightarrow> exchange_env \<Rightarrow> request \<Rightarrow> 'v gateway \<Rightarrow> response \<times> 'v gateway" where
  "requestListener JSON_parse env req g =
     (if pathname req = path g then
        (case handleMcpRequest JSON_parse env req new_response g of
           (Inr u, res, g') \<Rightarrow> (res, g')
         | (Inl e, res, g') \<Rightarrow>
             (let g'' = g'\<lparr>console := console g' @ [''Error handling request:'']\<rparr>
              in if \<not> headersSent res
                 then (sendJson res 500 (envelope (- 32603) ''Internal server error''), g'')
                 else (res, g'')))
      else (sendJson new_response 404 not_found, g))"

section \<open>Lifecycle\<close>

text \<open>
  The state of a promise when the function that made it has returned. \<^verbatim>\<open>start\<close> builds its
  promise with an executor that only ever calls \<^verbatim>\<open>resolve\<close>, from the callback of
  \<^verbatim>\<open>httpServer.listen\<close> (lines 119-125). What \<^verbatim>\<open>listen\<close> does is the platform's choice:
  it binds and runs the callback (\<open>Bound\<close>); it fails to bind and reports that through
  the server's \<^verbatim>\<open>error\<close> event, as it does for a port in use, and never runs the
  callback (\<open>ErrorEvent\<close>); or it throws inside the executor (\<open>Throws\<close>), which is the
  one way the promise can reject.
\<close>

datatype promise = Pending | Resolved | Rejected

datatype listen_outcome = Bound | ErrorEvent | Throws

definition start :: "listen_outcome \<Rightarrow> 'v gateway \<Rightarrow> promise \<times> 'v gateway" where
  "start outcome g =
     (let g1 = g\<lparr>trace := trace g @ [Listen (port g)]\<rparr> in
      case outcome of
        Bound \<Rightarrow>
          (Resolved,
           g1\<lparr>listener := Listening,
              console := console g1
                @ [''MCP server listening on http://localhost:'' @ dec (port g) @ path g]\<rparr>)
      | ErrorEvent \<Rightarrow> (Pending, g1)
      | Throws \<Rightarrow> (Rejected, g1))"

text \<open>
  \<^verbatim>\<open>transport.close()\<close> of the SDK releases the channel and fires its \<^verbatim>\<open>onclose\<close>;
  its promise is taken to resolve.
\<close>

definition transport_close :: "chan \<Rightarrow> 'v gateway \<Rightarrow> 'v gateway" where
  "transport_close t g = fire t Close (g\<lparr>trace := trace g @ [CloseCall t]\<rparr>)"

text \<open>
  The loop of lines 128-130 walks the entries of the live \<^verbatim>\<open>Map\<close> in insertion order; an
  entry deleted before the iterator reaches it is skipped. \<open>close_all\<close> takes the keys
  present when the loop starts.
\<close>

fun close_all :: "string list \<Rightarrow> 'v gateway \<Rightarrow> 'v gateway" where
  "close_all [] g = g"
| "close_all (k # ks) g =
     (case map_of (transports g) k of
        None \<Rightarrow> close_all ks g
      | Some t \<Rightarrow> close_all ks (transport_close t g))"

text \<open>
  \<^verbatim>\<open>httpServer.close()\<close> is called without a callback and is not awaited (line 131). The
  call stops the listener from accepting connections; the listener has finished closing
  when it later emits \<^verbatim>\<open>close\<close>, which \<open>close_event\<close> models.
\<close>

definition httpServer_close :: "'v gateway \<Rightarrow> 'v gateway" where
  "httpServer_close g =
     g\<lparr>trace := trace g @ [ServerClose],
       listener := (if listener g = Listening then Closing else listener g)\<rparr>"

definition close_event :: "'v gateway \<Rightarrow> 'v gateway" where
  "close_event g = g\<lparr>listener := (if listener g = Closing then Closed else listener g)\<rparr>"

definition stop :: "'v gateway \<Rightarrow> promise \<times> 'v gateway" where
  "stop g =
     (let g1 = g\<lparr>console := console g @ [''Shutting down...'']\<rparr>;
          g2 = close_all (map fst (transports g1)) g1
      in (Resolved, httpServer_close g2))"

section \<open>Runs of the gateway\<close>

text \<open>
  One step of a run: a whole exchange, a callback that a channel fires on its own between
  exchanges, a lifecycle call, or the listener's \<^verbatim>\<open>close\<close> event. Callbacks run to
  completion on one run loop, so each of them is one step. An exchange whose channel
  fires its callbacks only after other exchanges have been served is the exchange with
  no callbacks, followed later by \<open>Established\<close> or \<open>ChannelClosed\<close> steps.
\<close>

datatype op =
    Exchange request exchange_env
  | Established chan string
  | ChannelClosed chan
  | Start listen_outcome
  | Stop
  | CloseEvent

definition exec :: "(jsstring \<Rightarrow> 'v option) \<Rightarrow> op \<Rightarrow> 'v gateway \<Rightarrow> 'v gateway" where
  "exec JSON_parse op g =
     (case op of
        Exchange req env \<Rightarrow> snd (requestListener JSON_parse env req g)
      | Established t sid \<Rightarrow> fire t (SessionInitialized sid) g
      | ChannelClosed t \<Rightarrow> fire t Close g
      | Start outcome \<Rightarrow> snd (start outcome g)
      | Stop \<Rightarrow> snd (stop g)
      | CloseEvent \<Rightarrow> close_event g)"

fun run :: "(jsstring \<Rightarrow> 'v option) \<Rightarrow> op list \<Rightarrow> 'v gateway \<Rightarrow> 'v gateway" where
  "run JSON_parse [] g = g"
| "run JSON_parse (op # ops) g = run JSON_parse ops (exec JSON_parse op g)"

subsection \<open>What the gateway relies on from the channel\<close>

text \<open>
  A channel announces an id at most once and not after it has closed; the id comes from
  \<^verbatim>\<open>randomUUID()\<close> (line 56), taken here to be a non-empty string that no channel has been
  given before.
\<close>

definition init_ok :: "'v gateway \<Rightarrow> chan \<Rightarrow> string \<Rightarrow> bool" where
  "init_ok g t sid \<longleftrightarrow>
     t < length (heap g) \<and> sessionId (heap g ! t) = None \<and> \<not> closed (heap g ! t)
     \<and> sid \<noteq> [] \<and> Some sid \<notin> set (map sessionId (heap g))"

fun fires_ok :: "chan \<Rightarrow> callback list \<Rightarrow> 'v gateway \<Rightarrow> bool" where
  "fires_ok t [] g = True"
| "fires_ok t (cb # cbs) g =
     ((case cb of SessionInitialized sid \<Rightarrow> init_ok g t sid | Close \<Rightarrow> t < length (heap g))
      \<and> fires_ok t cbs (fire t cb g))"

text \<open>
  The channel an exchange is handed to, with the state in which the hand-over happens
  (\<open>None\<close> when the gateway answers by itself or fails before).
\<close>

definition forwarded ::
  "(jsstring \<Rightarrow> 'v option) \<Rightarrow> request \<Rightarrow> 'v gateway \<Rightarrow> (chan \<times> 'v gateway) option" where
  "forwarded JSON_parse req g =
     (if pathname req \<noteq> path g then None
      else if req_method req = ''POST'' then
        (case parseBody JSON_parse req of
           Inl e \<Rightarrow> None
         | Inr payload \<Rightarrow>
             Some (case find_transport (mcp_session_id req) g of
                     Some t \<Rightarrow> (t, g)
                   | None \<Rightarrow> createSession g))
      else if req_method req = ''GET'' \<or> req_method req = ''DELETE'' then
        map_option (\<lambda>t. (t, g)) (find_transport (mcp_session_id req) g)
      else None)"

text \<open>An id is announced only by a channel that has been handed an exchange.\<close>

definition handled :: "'v gateway \<Rightarrow> chan \<Rightarrow> bool" where
  "handled g t \<longleftrightarrow> list_ex (\<lambda>e. case e of HandleRequest t' p \<Rightarrow> t' = t | _ \<Rightarrow> False) (trace g)"

definition op_ok :: "(jsstring \<Rightarrow> 'v option) \<Rightarrow> op \<Rightarrow> 'v gateway \<Rightarrow> bool" where
  "op_ok JSON_parse op g =
     (case op of
        Exchange req env \<Rightarrow>
          (case forwarded JSON_parse req g of
             None \<Rightarrow> True
           | Some (t, g1) \<Rightarrow> fires_ok t (fires env) g1)
      | Established t sid \<Rightarrow> init_ok g t sid \<and> handled g t
      | ChannelClosed t \<Rightarrow> t < length (heap g)
      | _ \<Rightarrow> True)"

fun valid_run :: "(jsstring \<Rightarrow> 'v option) \<Rightarrow> op list \<Rightarrow> 'v gateway \<Rightarrow> bool" where
  "valid_run JSON_parse [] g = True"
| "valid_run JSON_parse (op # ops) g =
     (op_ok JSON_parse op g \<and> valid_run JSON_parse ops (exec JSON_parse op g))"

section \<open>Consistency of the registry\<close>

text \<open>
  \<open>live h t sid\<close>: the channel \<open>t\<close> exists, has been given the id \<open>sid\<close>, and has not
  fired its closed callback. A state is consistent when the registry holds exactly the
  live channels under their ids, no key occurs twice, no channel has the empty id, and no
  two channels have the same id.
\<close>

definition live :: "transport list \<Rightarrow> chan \<Rightarrow> string \<Rightarrow> bool" where
  "live h t sid \<longleftrightarrow> t < length h \<and> sessionId (h ! t) = Some sid \<and> \<not> closed (h ! t)"

definition ids_unique :: "transport list \<Rightarrow> bool" where
  "ids_unique h \<longleftrightarrow>
     (\<forall>t t' sid. t < length h \<longrightarrow> t' < length h \<longrightarrow> sessionId (h ! t) = Some sid
        \<longrightarrow> sessionId (h ! t') = Some sid \<longrightarrow> t = t')"

definition consistent_heap :: "(string \<times> chan) list \<Rightarrow> transport list \<Rightarrow> bool" where
  "consistent_heap reg h \<longleftrightarrow>
     (\<forall>sid t. map_of reg sid = Some t \<longleftrightarrow> live h t sid)
     \<and> distinct (map fst reg)
     \<and> Some [] \<notin> set (map sessionId h)
     \<and> ids_unique h"

definition consistent :: "'v gateway \<Rightarrow> bool" where
  "consistent g \<longleftrightarrow> consistent_heap (transports g) (heap g)"

section \<open>What a run keeps\<close>

text \<open>
  \<open>keeps g g'\<close>: every channel of \<open>g\<close> is a channel of \<open>g'\<close>, and a channel that has an id
  in \<open>g\<close> has the same id in \<open>g'\<close>.
\<close>

definition keeps :: "'v gateway \<Rightarrow> 'v gateway \<Rightarrow> bool" where
  "keeps g g' \<longleftrightarrow>
     length (heap g) \<le> length (heap g')
     \<and> (\<forall>u sid. u < length (heap g) \<longrightarrow> sessionId (heap g ! u) = Some sid
           \<longrightarrow> sessionId (heap g' ! u) = Some sid)"

text \<open>Every channel that the recorded calls name exists.\<close>

definition trace_ok :: "'v gateway \<Rightarrow> bool" where
  "trace_ok g \<longleftrightarrow>
     (\<forall>t p. HandleRequest t p \<in> set (trace g) \<longrightarrow> t < length (heap g))
     \<and> (\<forall>t. CloseCall t \<in> set (trace g) \<longrightarrow> t < length (heap g))"

text \<open>
  A channel the gateway has created, that has no id, that was never handed an exchange and
  on which the gateway has never called \<^verbatim>\<open>close\<close>.
\<close>

definition untouched :: "'v gateway \<Rightarrow> chan \<Rightarrow> bool" where
  "untouched g c \<longleftrightarrow>
     c < length (heap g) \<and> sessionId (heap g ! c) = None \<and> \<not> handled g c
     \<and> CloseCall c \<notin> set (trace g)"

text \<open>The payloads the channels have been handed, oldest first.\<close>

definition payloads :: "'v event list \<Rightarrow> 'v option list" where
  "payloads evs = concat (map (\<lambda>e. case e of HandleRequest t p \<Rightarrow> [p] | _ \<Rightarrow> []) evs)"

text \<open>The ids that the channels announce in one step.\<close>

definition ids_of :: "callback list \<Rightarrow> string list" where
  "ids_of cbs = concat (map (\<lambda>cb. case cb of SessionInitialized sid \<Rightarrow> [sid] | Close \<Rightarrow> []) cbs)"

definition announced :: "op \<Rightarrow> string set" where
  "announced op =
     (case op of
        Exchange req env \<Rightarrow> set (ids_of (fires env))
      | Established t sid \<Rightarrow> {sid}
      | _ \<Rightarrow> {})"

section \<open>Example inputs\<close>

definition example_gateway :: "nat gateway" where
  "example_gateway = createMcpHttpServer \<lparr>opt_port = None, opt_path = None\<rparr>"

text \<open>A parser that knows one text, \<^verbatim>\<open>{}\<close>, and fails on every other.\<close>

definition example_parse :: "jsstring \<Rightarrow> nat option" where
  "example_parse s = (if s = [0x7B, 0x7D] then Some 7 else None)"

definition env_quiet :: exchange_env where
  "env_quiet = \<lparr>fires = [], sends = None, rejects = False\<rparr>"

definition env_open :: "string \<Rightarrow> exchange_env" where
  "env_open sid = \<lparr>fires = [SessionInitialized sid], sends = Some (200, ''ok''), rejects = False\<rparr>"

definition env_close :: exchange_env where
  "env_close = \<lparr>fires = [Close], sends = Some (200, []), rejects = False\<rparr>"

definition example_request :: "string \<Rightarrow> string option \<Rightarrow> string list \<Rightarrow> request" where
  "example_request verb sid cs =
     \<lparr>req_method = verb, pathname = ''/mcp'', mcp_session_id = sid, chunks = cs,
      stream_error = False\<rparr>"

text \<open>The listener starts, then one client opens a session that is given the id \<open>s1\<close>.\<close>

definition example_run :: "op list" where
  "example_run = [Start Bound, Exchange (example_request ''POST'' None [''{}'']) (env_open ''s1'')]"

definition one_session :: "nat gateway" where
  "one_session =
     \<lparr>port = 3000, path = ''/mcp'', transports = [(''s1'', 0)],
      heap = [\<lparr>sessionId = Some ''s1'', closed = False, server = 0\<rparr>],
      servers = 1, listener = Listening,
      trace = [Listen 3000, Factory 0, Connect 0 0, ReadBody, HandleRequest 0 (Some 7)],
      console = [''MCP server listening on http://localhost:3000/mcp'',
                 ''Session initialized: s1'']\<rparr>"

text \<open>A client has opened a session whose channel has not announced an id.\<close>

definition pending_session :: "nat gateway" where
  "pending_session =
     \<lparr>port = 3000, path = ''/mcp'', transports = [],
      heap = [\<lparr>sessionId = None, closed = False, server = 0\<rparr>],
      servers = 1, listener = Idle,
      trace = [Factory 0, Connect 0 0, ReadBody, HandleRequest 0 (Some 7)],
      console = []\<rparr>"

text \<open>A channel that writes part of a response and then fails.\<close>

definition env_broken :: exchange_env where
  "env_broken = \<lparr>fires = [], sends = Some (200, ''partial''), rejects = True\<rparr>"

text \<open>A client has posted a body that does not parse, with no session id.\<close>

definition orphaned :: "nat gateway" where
  "orphaned =
     \<lparr>port = 3000, path = ''/mcp'', transports = [],
      heap = [\<lparr>sessionId = None, closed = False, server = 0\<rparr>],
      servers = 1, listener = Idle,
      trace = [Factory 0, Connect 0 0, ReadBody],
      console = []\<rparr>"

text \<open>The listener has started and no client has connected.\<close>

definition started :: "nat gateway" where
  "started =
     \<lparr>port = 3000, path = ''/mcp'', transports = [], heap = [], servers = 0,
      listener = Listening, trace = [Listen 3000],
      console = [''MCP server listening on http://localhost:3000/mcp'']\<rparr>"

text \<open>The session \<open>s1\<close> of \<open>one_session\<close> has been terminated by a DELETE.\<close>

definition closed_session :: "nat gateway" where
  "closed_session =
     \<lparr>port = 3000, path = ''/mcp'', transports = [],
      heap = [\<lparr>sessionId = Some ''s1'', closed = True, server = 0\<rparr>],
      servers = 1, listener = Listening,
      trace = [Listen 3000, Factory 0, Connect 0 0, ReadBody, HandleRequest 0 (Some 7),
               HandleRequest 0 None],
      console = [''MCP server listening on http://localhost:3000/mcp'',
                 ''Session initialized: s1'', ''Session closed: s1'']\<rparr>"

text \<open>
  What \<^verbatim>\<open>JSON.parse\<close> returns for a string literal without escapes: the characters
  between the quotation marks. On every other text this parser fails.
\<close>

definition quoted_parse :: "jsstring \<Rightarrow> jsstring option" where
  "quoted_parse s =
     (if 2 \<le> length s \<and> hd s = 0x22 \<and> last s = 0x22
         \<and> list_all (\<lambda>c. 0x20 \<le> c \<and> c \<noteq> 0x22 \<and> c \<noteq> 0x5C) (butlast (tl s))
      then Some (butlast (tl s)) else None)"

definition text_gateway :: "jsstring gateway" where
  "text_gateway = createMcpHttpServer \<lparr>opt_port = None, opt_path = None\<rparr>"

text \<open>
  The JSON text of the one-letter string U+00E9 is four bytes in UTF-8: a quotation mark,
  C3 A9, a quotation mark.
\<close>

definition e_acute_body :: string where
  "e_acute_body = [CHR 0x22, CHR 0xC3, CHR 0xA9, CHR 0x22]"

section \<open>Serialised error envelopes\<close>

lemma stringify_invalid_session:
  \<open>stringify (envelope (- 32000) ''Invalid or missing session ID'') =
     ''{"jsonrpc":"2.0","error":{"code":-32000,"message":"Invalid or missing session ID"},"id":null}''\<close>
  by (simp add: envelope_def quote_def quote_char_def number_to_string_def dec.simps digit_char_def)

lemma stringify_method_not_allowed:
  \<open>stringify (envelope (- 32000) ''Method not allowed'') =
     ''{"jsonrpc":"2.0","error":{"code":-32000,"message":"Method not allowed"},"id":null}''\<close>
  by (simp add: envelope_def quote_def quote_char_def number_to_string_def dec.simps digit_char_def)

lemma stringify_internal_error:
  \<open>stringify (envelope (- 32603) ''Internal server error'') =
     ''{"jsonrpc":"2.0","error":{"code":-32603,"message":"Internal server error"},"id":null}''\<close>
  by (simp add: envelope_def quote_def quote_char_def number_to_string_def dec.simps digit_char_def)

lemma stringify_not_found: \<open>stringify not_found = ''{"error":"Not found"}''\<close>
  by (simp add: not_found_def quote_def quote_char_def)

section \<open>The registry invariant is preserved\<close>

lemma consistent_initial: "consistent (createMcpHttpServer options)"
  by (simp add: consistent_def consistent_heap_def createMcpHttpServer_def live_def ids_unique_def)

lemma live_snoc:
  "live (h @ [\<lparr>sessionId = None, closed = c, server = n\<rparr>]) t sid = live h t sid"
  by (auto simp: live_def nth_append less_Suc_eq)

lemma ids_unique_snoc:
  "ids_unique h \<Longrightarrow> ids_unique (h @ [\<lparr>sessionId = None, closed = c, server = n\<rparr>])"
  unfolding ids_unique_def
  by (auto simp: nth_append less_Suc_eq split: if_splits)

lemma consistent_heap_snoc:
  "consistent_heap reg h
     \<Longrightarrow> consistent_heap reg (h @ [\<lparr>sessionId = None, closed = c, server = n\<rparr>])"
  unfolding consistent_heap_def
  by (simp add: live_snoc ids_unique_snoc)

lemma consistent_createSession: "consistent g \<Longrightarrow> consistent (snd (createSession g))"
  by (simp add: consistent_def createSession_def Let_def consistent_heap_snoc)


lemma live_fresh:
  assumes "Some sid \<notin> set (map sessionId h)"
  shows "\<not> live h u sid"
proof
  assume "live h u sid"
  then have "u < length h" and "sessionId (h ! u) = Some sid"
    by (simp_all add: live_def)
  then have "Some sid \<in> set (map sessionId h)"
    by (metis length_map nth_map nth_mem)
  with assms show False by simp
qed

lemma live_assign:
  assumes "t < length h" and "sessionId (h ! t) = None" and "\<not> closed (h ! t)"
    and "Some sid \<notin> set (map sessionId h)"
  shows "live (h[t := (h ! t)\<lparr>sessionId := Some sid\<rparr>]) u k
           = (if k = sid then u = t else live h u k)"
proof (cases "u = t")
  case True
  with assms show ?thesis by (auto simp: live_def)
next
  case False
  then have "live (h[t := (h ! t)\<lparr>sessionId := Some sid\<rparr>]) u k = live h u k"
    by (simp add: live_def)
  moreover have "\<not> live h u sid" using assms(4) by (rule live_fresh)
  ultimately show ?thesis using False by auto
qed

lemma ids_unique_assign:
  assumes "ids_unique h" and "Some sid \<notin> set (map sessionId h)"
  shows "ids_unique (h[t := (h ! t)\<lparr>sessionId := Some sid\<rparr>])"
  unfolding ids_unique_def
proof (intro allI impI)
  fix a b k
  let ?h = "h[t := (h ! t)\<lparr>sessionId := Some sid\<rparr>]"
  assume a: "a < length ?h" and b: "b < length ?h"
    and sa: "sessionId (?h ! a) = Some k" and sb: "sessionId (?h ! b) = Some k"
  have fresh: "\<And>u. u < length h \<Longrightarrow> sessionId (h ! u) \<noteq> Some sid"
    using assms(2) by (metis length_map nth_map nth_mem)
  show "a = b"
  proof (cases "a = t")
    case True
    with a sa have k: "k = sid" by simp
    show ?thesis
    proof (cases "b = t")
      case True
      with \<open>a = t\<close> show ?thesis by simp
    next
      case False
      with b sb k fresh [of b] show ?thesis by simp
    qed
  next
    case False
    note at = False
    show ?thesis
    proof (cases "b = t")
      case True
      with b sb have "k = sid" by simp
      with at a sa fresh [of a] show ?thesis by simp
    next
      case False
      with at a b sa sb assms(1) show ?thesis
        unfolding ids_unique_def by (metis length_list_update nth_list_update_neq)
    qed
  qed
qed

lemma consistent_heap_assign:
  assumes "consistent_heap reg h" and "t < length h" and "sessionId (h ! t) = None"
    and "\<not> closed (h ! t)" and "sid \<noteq> []" and "Some sid \<notin> set (map sessionId h)"
  shows "consistent_heap (AList.update sid t reg) (h[t := (h ! t)\<lparr>sessionId := Some sid\<rparr>])"
proof -
  let ?h = "h[t := (h ! t)\<lparr>sessionId := Some sid\<rparr>]"
  have reg: "\<And>k u. (map_of reg k = Some u) = live h u k"
    and dist: "distinct (map fst reg)"
    and nonempty: "Some [] \<notin> set (map sessionId h)"
    and uniq: "ids_unique h"
    using assms(1) by (simp_all add: consistent_heap_def)
  have "(map_of (AList.update sid t reg) k = Some u) = live ?h u k" for k u
    using reg [of k u] assms(2-4,6) by (auto simp add: update_conv' live_assign)
  moreover have "distinct (map fst (AList.update sid t reg))"
    using dist by (simp add: distinct_update)
  moreover have "Some [] \<notin> set (map sessionId ?h)"
  proof
    assume "Some [] \<in> set (map sessionId ?h)"
    then have "Some [] \<in> set ((map sessionId h)[t := Some sid])"
      by (simp add: map_update)
    then have "Some [] \<in> insert (Some sid) (set (map sessionId h))"
      using set_update_subset_insert by fastforce
    with nonempty assms(5) show False by auto
  qed
  moreover have "ids_unique ?h"
    using uniq assms(6) by (rule ids_unique_assign)
  ultimately show ?thesis
    unfolding consistent_heap_def by blast
qed

lemma consistent_fire_init:
  assumes "consistent g" and "init_ok g t sid"
  shows "consistent (fire t (SessionInitialized sid) g)"
  using assms
  by (simp add: consistent_def fire_def onsessioninitialized_def assign_id_def init_ok_def consistent_heap_assign)


lemma live_close_none:
  assumes "sessionId (h ! t) = None"
  shows "live (h[t := (h ! t)\<lparr>closed := True\<rparr>]) u k = live h u k"
  using assms by (cases "u = t") (auto simp: live_def)

lemma live_close_some:
  assumes "ids_unique h" and "t < length h" and "sessionId (h ! t) = Some sid"
  shows "live (h[t := (h ! t)\<lparr>closed := True\<rparr>]) u k = (if k = sid then False else live h u k)"
proof (cases "u = t")
  case True
  with assms show ?thesis by (auto simp: live_def)
next
  case False
  then have same: "live (h[t := (h ! t)\<lparr>closed := True\<rparr>]) u k = live h u k"
    by (simp add: live_def)
  have "\<not> live h u sid"
  proof
    assume "live h u sid"
    then have "u < length h" and "sessionId (h ! u) = Some sid" by (simp_all add: live_def)
    with assms have "u = t" unfolding ids_unique_def by blast
    with False show False by simp
  qed
  with same show ?thesis by auto
qed

lemma sessionId_close:
  "map sessionId (h[t := (h ! t)\<lparr>closed := True\<rparr>]) = map sessionId h"
proof (cases "t < length h")
  case True
  then show ?thesis
    by (auto intro!: nth_equalityI simp: nth_list_update)
next
  case False
  then have "length h \<le> t" by simp
  then show ?thesis by (simp add: list_update_beyond)
qed

lemma ids_unique_close:
  assumes "ids_unique h"
  shows "ids_unique (h[t := (h ! t)\<lparr>closed := True\<rparr>])"
proof -
  let ?h = "h[t := (h ! t)\<lparr>closed := True\<rparr>]"
  have "sessionId (?h ! u) = sessionId (h ! u)" if "u < length h" for u
    using that by (cases "u = t") simp_all
  with assms show ?thesis
    unfolding ids_unique_def by simp
qed

lemma consistent_heap_close:
  assumes "consistent_heap reg h" and "t < length h"
  shows "consistent_heap (case sessionId (h ! t) of None \<Rightarrow> reg | Some sid \<Rightarrow> AList.delete sid reg)
           (h[t := (h ! t)\<lparr>closed := True\<rparr>])"
proof -
  let ?h = "h[t := (h ! t)\<lparr>closed := True\<rparr>]"
  have reg: "\<And>k u. (map_of reg k = Some u) = live h u k"
    and dist: "distinct (map fst reg)"
    and nonempty: "Some [] \<notin> set (map sessionId h)"
    and uniq: "ids_unique h"
    using assms(1) by (simp_all add: consistent_heap_def)
  have rest: "Some [] \<notin> set (map sessionId ?h)" "ids_unique ?h"
    using nonempty uniq by (simp_all only: sessionId_close ids_unique_close not_False_eq_True)
  show ?thesis
  proof (cases "sessionId (h ! t)")
    case None
    then have "(map_of reg k = Some u) = live ?h u k" for k u
      using reg [of k u] by (simp add: live_close_none)
    with dist rest None show ?thesis
      unfolding consistent_heap_def by simp
  next
    case (Some sid)
    have "(map_of (AList.delete sid reg) k = Some u) = live ?h u k" for k u
      using reg [of k u] uniq assms(2) Some by (simp add: delete_conv' live_close_some)
    moreover have "distinct (map fst (AList.delete sid reg))"
      using dist by (simp add: distinct_delete)
    ultimately show ?thesis
      using rest Some unfolding consistent_heap_def by simp
  qed
qed

lemma consistent_fire_close:
  assumes "consistent g" and "t < length (heap g)"
  shows "consistent (fire t Close g)"
proof -
  have nonempty: "sessionId (heap g ! t) \<noteq> Some []"
    using assms unfolding consistent_def consistent_heap_def by (metis length_map nth_map nth_mem)
  show ?thesis
  proof (cases "sessionId (heap g ! t)")
    case None
    with consistent_heap_close [of "transports g" "heap g" t] assms show ?thesis
      by (simp add: consistent_def fire_def onclose_def sessionId_of_def mark_closed_def)
  next
    case (Some sid)
    with nonempty have "sid \<noteq> []" by simp
    with Some consistent_heap_close [of "transports g" "heap g" t] assms show ?thesis
      by (simp add: consistent_def fire_def onclose_def sessionId_of_def mark_closed_def)
  qed
qed


lemma fire_trace: "fire t cb (g\<lparr>trace := x\<rparr>) = (fire t cb g)\<lparr>trace := x\<rparr>"
  by (cases cb)
    (simp_all add: fire_def onsessioninitialized_def assign_id_def onclose_def mark_closed_def
      sessionId_of_def split: option.splits)

lemma init_ok_trace: "init_ok (g\<lparr>trace := x\<rparr>) t sid = init_ok g t sid"
  by (simp add: init_ok_def)

lemma fires_ok_trace: "fires_ok t cbs (g\<lparr>trace := x\<rparr>) = fires_ok t cbs g"
proof (induction cbs arbitrary: g)
  case Nil
  show ?case by simp
next
  case (Cons cb cbs)
  show ?case
    by (cases cb) (simp_all add: fire_trace init_ok_trace Cons.IH)
qed

lemma consistent_trace: "consistent (g\<lparr>trace := x\<rparr>) = consistent g"
  by (simp add: consistent_def)

lemma consistent_console: "consistent (g\<lparr>console := x\<rparr>) = consistent g"
  by (simp add: consistent_def)

lemma consistent_fire:
  assumes "consistent g"
    and "case cb of SessionInitialized sid \<Rightarrow> init_ok g t sid | Close \<Rightarrow> t < length (heap g)"
  shows "consistent (fire t cb g)"
  using assms by (cases cb) (simp_all add: consistent_fire_init consistent_fire_close)

lemma consistent_fires: "consistent g \<Longrightarrow> fires_ok t cbs g \<Longrightarrow> consistent (foldl (\<lambda>s cb. fire t cb s) g cbs)"
proof (induction cbs arbitrary: g)
  case Nil
  then show ?case by simp
next
  case (Cons cb cbs)
  from Cons.prems have "consistent (fire t cb g)" and "fires_ok t cbs (fire t cb g)"
    by (simp_all add: consistent_fire)
  then show ?case by (simp add: Cons.IH)
qed

lemma consistent_transport_handleRequest:
  assumes "consistent g" and "fires_ok t (fires env) g"
  shows "consistent (snd (snd (transport_handleRequest env t payload res g)))"
  using assms
  by (simp add: transport_handleRequest_def Let_def consistent_fires consistent_trace fires_ok_trace)

lemma consistent_handleMcpRequest:
  assumes "consistent g" and "pathname req = path g" and "op_ok JSON_parse (Exchange req env) g"
  shows "consistent (snd (snd (handleMcpRequest JSON_parse env req res g)))"
proof (cases "req_method req = ''POST''")
  case True
  show ?thesis
  proof (cases "parseBody JSON_parse req")
    case (Inl e)
    with True assms(1) show ?thesis
      by (simp add: handleMcpRequest_def Let_def consistent_trace consistent_createSession
          split: option.splits prod.splits)
        (metis snd_conv consistent_createSession)
  next
    case (Inr payload)
    show ?thesis
    proof (cases "find_transport (mcp_session_id req) g")
      case None
      obtain t g1 where c: "createSession g = (t, g1)" by (cases "createSession g")
      then have "consistent g1" using assms(1) consistent_createSession [of g] by simp
      moreover have "fires_ok t (fires env) g1"
        using assms(2,3) True Inr None c by (simp add: op_ok_def forwarded_def)
      ultimately show ?thesis
        using True Inr None c
        by (simp add: handleMcpRequest_def Let_def consistent_transport_handleRequest consistent_trace
            fires_ok_trace)
    next
      case (Some t)
      have "fires_ok t (fires env) g"
        using assms(2,3) True Inr Some by (simp add: op_ok_def forwarded_def)
      with assms(1) show ?thesis
        using True Inr Some
        by (simp add: handleMcpRequest_def Let_def consistent_transport_handleRequest consistent_trace
            fires_ok_trace)
    qed
  qed
next
  case False
  note notpost = False
  show ?thesis
  proof (cases "req_method req = ''GET'' \<or> req_method req = ''DELETE''")
    case True
    show ?thesis
    proof (cases "find_transport (mcp_session_id req) g")
      case None
      with notpost True assms(1) show ?thesis
        by (simp add: handleMcpRequest_def)
    next
      case (Some t)
      have "fires_ok t (fires env) g"
        using assms(2,3) notpost True Some by (simp add: op_ok_def forwarded_def)
      with assms(1) notpost True Some show ?thesis
        by (simp add: handleMcpRequest_def consistent_transport_handleRequest)
    qed
  next
    case False
    with notpost assms(1) show ?thesis
      by (simp add: handleMcpRequest_def)
  qed
qed

lemma consistent_requestListener:
  assumes "consistent g" and "op_ok JSON_parse (Exchange req env) g"
  shows "consistent (snd (requestListener JSON_parse env req g))"
proof (cases "pathname req = path g")
  case True
  obtain r res g' where h: "handleMcpRequest JSON_parse env req new_response g = (r, res, g')"
    by (cases "handleMcpRequest JSON_parse env req new_response g") auto
  have "consistent g'"
    using consistent_handleMcpRequest [OF assms(1) True assms(2), of new_response] h by simp
  with True h show ?thesis
    by (cases r) (simp_all add: requestListener_def Let_def consistent_console)
next
  case False
  with assms(1) show ?thesis by (simp add: requestListener_def)
qed


lemma consistent_registered:
  assumes "consistent g" and "map_of (transports g) k = Some t"
  shows "t < length (heap g)" and "sessionId (heap g ! t) = Some k" and "\<not> closed (heap g ! t)"
  using assms by (simp_all add: consistent_def consistent_heap_def live_def)

lemma consistent_transport_close:
  assumes "consistent g" and "t < length (heap g)"
  shows "consistent (transport_close t g)"
  using assms by (simp add: transport_close_def consistent_fire_close consistent_trace)

lemma consistent_close_all: "consistent g \<Longrightarrow> consistent (close_all ks g)"
proof (induction ks arbitrary: g)
  case Nil
  then show ?case by simp
next
  case (Cons k ks)
  show ?case
  proof (cases "map_of (transports g) k")
    case None
    with Cons show ?thesis by simp
  next
    case (Some t)
    with Cons.prems have "consistent (transport_close t g)"
      by (simp add: consistent_transport_close consistent_registered(1))
    with Some Cons.IH show ?thesis by simp
  qed
qed

lemma consistent_httpServer_close: "consistent (httpServer_close g) = consistent g"
  by (simp add: httpServer_close_def consistent_def)

lemma consistent_stop:
  assumes "consistent g"
  shows "consistent (snd (stop g))"
proof -
  let ?g1 = "g\<lparr>console := console g @ [''Shutting down...'']\<rparr>"
  have "consistent ?g1"
    using assms by (simp add: consistent_console)
  then have "consistent (close_all (map fst (transports g)) ?g1)"
    by (rule consistent_close_all)
  then show ?thesis
    by (simp add: stop_def Let_def consistent_httpServer_close)
qed

lemma consistent_start: "consistent g \<Longrightarrow> consistent (snd (start outcome g))"
  by (cases outcome) (simp_all add: start_def Let_def consistent_def)

lemma consistent_close_event: "consistent g \<Longrightarrow> consistent (close_event g)"
  by (simp add: close_event_def consistent_def)

lemma consistent_exec:
  assumes "consistent g" and "op_ok JSON_parse op g"
  shows "consistent (exec JSON_parse op g)"
proof (cases op)
  case (Exchange req env)
  with assms show ?thesis by (simp add: exec_def consistent_requestListener)
next
  case (Established t sid)
  with assms show ?thesis by (simp add: exec_def op_ok_def consistent_fire_init)
next
  case (ChannelClosed t)
  with assms show ?thesis by (simp add: exec_def op_ok_def consistent_fire_close)
next
  case (Start outcome)
  with assms show ?thesis by (simp add: exec_def consistent_start)
next
  case Stop
  with assms show ?thesis by (simp add: exec_def consistent_stop)
next
  case CloseEvent
  with assms show ?thesis by (simp add: exec_def consistent_close_event)
qed

lemma consistent_run: "consistent g \<Longrightarrow> valid_run JSON_parse ops g \<Longrightarrow> consistent (run JSON_parse ops g)"
proof (induction ops arbitrary: g)
  case Nil
  then show ?case by simp
next
  case (Cons op ops)
  then show ?case by (simp add: consistent_exec)
qed

section \<open>Facts that every step of a run keeps\<close>

lemma heap_fire_length: "length (heap (fire t cb g)) = length (heap g)"
  by (cases cb)
    (simp_all add: fire_def onsessioninitialized_def assign_id_def onclose_def mark_closed_def
      sessionId_of_def split: option.splits)

lemma trace_fire: "trace (fire t cb g) = trace g"
  by (cases cb)
    (simp_all add: fire_def onsessioninitialized_def assign_id_def onclose_def mark_closed_def
      sessionId_of_def split: option.splits)

lemma servers_fire: "servers (fire t cb g) = servers g"
  by (cases cb)
    (simp_all add: fire_def onsessioninitialized_def assign_id_def onclose_def mark_closed_def
      sessionId_of_def split: option.splits)

lemma heap_fire_other: "u \<noteq> t \<Longrightarrow> heap (fire t cb g) ! u = heap g ! u"
  by (cases cb)
    (simp_all add: fire_def onsessioninitialized_def assign_id_def onclose_def mark_closed_def
      sessionId_of_def split: option.splits)

lemma sessionId_fire_close: "sessionId (heap (fire t Close g) ! u) = sessionId (heap g ! u)"
proof (cases "u = t \<and> t < length (heap g)")
  case True
  then show ?thesis
    by (simp add: fire_def onclose_def mark_closed_def sessionId_of_def split: option.splits)
next
  case False
  then consider "u \<noteq> t" | "length (heap g) \<le> t" by fastforce
  then show ?thesis
  proof cases
    case 1
    then show ?thesis by (simp add: heap_fire_other)
  next
    case 2
    then show ?thesis
      by (simp add: fire_def onclose_def mark_closed_def sessionId_of_def list_update_beyond
          split: option.splits)
  qed
qed

lemma keeps_refl: "keeps g g"
  by (simp add: keeps_def)

lemma keeps_trans: "keeps g g' \<Longrightarrow> keeps g' g'' \<Longrightarrow> keeps g g''"
  unfolding keeps_def by (meson le_trans less_le_trans)

lemma keeps_fire_close: "keeps g (fire t Close g)"
  by (simp add: keeps_def heap_fire_length sessionId_fire_close)

lemma keeps_fire_init:
  assumes "sessionId (heap g ! t) = None"
  shows "keeps g (fire t (SessionInitialized sid) g)"
  unfolding keeps_def
proof (intro conjI allI impI)
  show "length (heap g) \<le> length (heap (fire t (SessionInitialized sid) g))"
    by (simp add: heap_fire_length)
next
  fix u k
  assume "u < length (heap g)" and k: "sessionId (heap g ! u) = Some k"
  with assms have "u \<noteq> t" by auto
  with k show "sessionId (heap (fire t (SessionInitialized sid) g) ! u) = Some k"
    by (simp add: heap_fire_other)
qed

lemma keeps_fires: "fires_ok t cbs g \<Longrightarrow> keeps g (foldl (\<lambda>s cb. fire t cb s) g cbs)"
proof (induction cbs arbitrary: g)
  case Nil
  show ?case by (simp add: keeps_refl)
next
  case (Cons cb cbs)
  have "keeps g (fire t cb g)"
    using Cons.prems by (cases cb) (simp_all add: keeps_fire_init keeps_fire_close init_ok_def)
  moreover have "keeps (fire t cb g) (foldl (\<lambda>s cb. fire t cb s) (fire t cb g) cbs)"
    using Cons.prems by (simp add: Cons.IH)
  ultimately show ?case
    by (simp add: keeps_trans)
qed

lemma keeps_trace: "keeps g (g'\<lparr>trace := x\<rparr>) = keeps g g'"
  by (simp add: keeps_def)

lemma keeps_trace_left: "keeps (g\<lparr>trace := x\<rparr>) g' = keeps g g'"
  by (simp add: keeps_def)

lemma keeps_console: "keeps g (g'\<lparr>console := x\<rparr>) = keeps g g'"
  by (simp add: keeps_def)

lemma keeps_createSession: "keeps g (snd (createSession g))"
  by (simp add: keeps_def createSession_def Let_def nth_append)


lemma keeps_transport_handleRequest:
  assumes "fires_ok t (fires env) g"
  shows "keeps g (snd (snd (transport_handleRequest env t payload res g)))"
proof -
  let ?g1 = "g\<lparr>trace := trace g @ [HandleRequest t payload]\<rparr>"
  have "fires_ok t (fires env) ?g1"
    using assms by (simp add: fires_ok_trace)
  then have "keeps ?g1 (foldl (\<lambda>s cb. fire t cb s) ?g1 (fires env))"
    by (rule keeps_fires)
  then show ?thesis
    by (simp add: transport_handleRequest_def Let_def keeps_trace_left)
qed

text \<open>The state an exchange leaves, by the way the dispatcher took.\<close>

lemma handleMcpRequest_state:
  assumes "pathname req = path g"
  shows "snd (snd (handleMcpRequest JSON_parse env req res g)) =
    (case forwarded JSON_parse req g of
       Some (t, g1) \<Rightarrow>
         (if req_method req = ''POST''
          then snd (snd (transport_handleRequest env t
                 (case parseBody JSON_parse req of Inr p \<Rightarrow> p | Inl e \<Rightarrow> None) res
                 (g1\<lparr>trace := trace g1 @ [ReadBody]\<rparr>)))
          else snd (snd (transport_handleRequest env t None res g1)))
     | None \<Rightarrow>
         (if req_method req = ''POST''
          then (let g1 = (case find_transport (mcp_session_id req) g of
                            Some t \<Rightarrow> g | None \<Rightarrow> snd (createSession g))
                in g1\<lparr>trace := trace g1 @ [ReadBody]\<rparr>)
          else g))"
proof (cases "req_method req = ''POST''")
  case True
  show ?thesis
  proof (cases "parseBody JSON_parse req")
    case (Inl e)
    with True assms show ?thesis
      by (simp add: handleMcpRequest_def forwarded_def Let_def split: option.splits prod.splits)
  next
    case (Inr payload)
    with True assms show ?thesis
      by (simp add: handleMcpRequest_def forwarded_def Let_def split: option.splits prod.splits)
  qed
next
  case False
  with assms show ?thesis
    by (auto simp add: handleMcpRequest_def forwarded_def split: option.splits)
qed

lemma requestListener_state:
  "snd (requestListener JSON_parse env req g) =
     (if pathname req = path g
      then (let g' = snd (snd (handleMcpRequest JSON_parse env req new_response g))
            in case fst (handleMcpRequest JSON_parse env req new_response g) of
                 Inr u \<Rightarrow> g'
               | Inl e \<Rightarrow> g'\<lparr>console := console g' @ [''Error handling request:'']\<rparr>)
      else g)"
  by (simp add: requestListener_def Let_def split: prod.splits sum.splits)


lemma forwarded_cases:
  assumes "forwarded JSON_parse req g = Some (t, g1)"
  shows "(g1 = g \<and> find_transport (mcp_session_id req) g = Some t)
         \<or> (createSession g = (t, g1) \<and> find_transport (mcp_session_id req) g = None)"
  using assms
  by (auto simp add: forwarded_def split: if_splits sum.splits option.splits)

lemma forwarded_keeps:
  assumes "forwarded JSON_parse req g = Some (t, g1)"
  shows "keeps g g1"
  using forwarded_cases [OF assms] keeps_createSession [of g] by (auto simp add: keeps_refl)

lemma keeps_handleMcpRequest:
  assumes "pathname req = path g" and "op_ok JSON_parse (Exchange req env) g"
  shows "keeps g (snd (snd (handleMcpRequest JSON_parse env req res g)))"
proof (cases "forwarded JSON_parse req g")
  case None
  then show ?thesis
    using keeps_createSession [of g]
    by (simp add: handleMcpRequest_state [OF assms(1)] Let_def keeps_trace keeps_refl
        split: option.splits)
next
  case (Some a)
  obtain t g1 where a: "a = (t, g1)" by (cases a)
  have ok: "fires_ok t (fires env) g1"
    using assms(2) Some a by (simp add: op_ok_def)
  have g1: "keeps g g1"
    using Some a by (simp add: forwarded_keeps)
  have "keeps g1 (snd (snd (transport_handleRequest env t p res g1)))" for p
    using ok by (rule keeps_transport_handleRequest)
  moreover
  have "keeps g1 (snd (snd (transport_handleRequest env t p res (g1\<lparr>trace := x\<rparr>))))" for p x
    using keeps_transport_handleRequest [of t env "g1\<lparr>trace := x\<rparr>" p res] ok
    by (simp add: fires_ok_trace keeps_trace_left)
  ultimately show ?thesis
    using g1 Some a
    by (auto simp add: handleMcpRequest_state [OF assms(1)] intro: keeps_trans)
qed

lemma keeps_requestListener:
  assumes "op_ok JSON_parse (Exchange req env) g"
  shows "keeps g (snd (requestListener JSON_parse env req g))"
  using keeps_handleMcpRequest [OF _ assms, of new_response]
  by (simp add: requestListener_state Let_def keeps_refl keeps_console split: sum.splits)

lemma keeps_transport_close: "keeps g (transport_close t g)"
  using keeps_fire_close [of "g\<lparr>trace := trace g @ [CloseCall t]\<rparr>" t]
  by (simp add: transport_close_def keeps_trace_left)

lemma keeps_close_all: "keeps g (close_all ks g)"
proof (induction ks arbitrary: g)
  case Nil
  show ?case by (simp add: keeps_refl)
next
  case (Cons k ks)
  show ?case
  proof (cases "map_of (transports g) k")
    case None
    then show ?thesis by (simp add: Cons.IH)
  next
    case (Some t)
    have "keeps g (transport_close t g)" by (rule keeps_transport_close)
    moreover have "keeps (transport_close t g) (close_all ks (transport_close t g))"
      by (rule Cons.IH)
    ultimately show ?thesis using Some by (simp add: keeps_trans)
  qed
qed

lemma keeps_stop: "keeps g (snd (stop g))"
proof -
  let ?g1 = "g\<lparr>console := console g @ [''Shutting down...'']\<rparr>"
  have "keeps ?g1 (close_all (map fst (transports g)) ?g1)"
    by (rule keeps_close_all)
  then show ?thesis
    by (simp add: stop_def Let_def httpServer_close_def keeps_def)
qed

lemma keeps_start: "keeps g (snd (start outcome g))"
  by (cases outcome) (simp_all add: start_def Let_def keeps_def)

lemma keeps_exec:
  assumes "op_ok JSON_parse op g"
  shows "keeps g (exec JSON_parse op g)"
proof (cases op)
  case (Exchange req env)
  with assms show ?thesis by (simp add: exec_def keeps_requestListener)
next
  case (Established t sid)
  with assms show ?thesis by (simp add: exec_def op_ok_def init_ok_def keeps_fire_init)
next
  case (ChannelClosed t)
  then show ?thesis by (simp add: exec_def keeps_fire_close)
next
  case (Start outcome)
  then show ?thesis by (simp add: exec_def keeps_start)
next
  case Stop
  then show ?thesis by (simp add: exec_def keeps_stop)
next
  case CloseEvent
  then show ?thesis by (simp add: exec_def close_event_def keeps_def)
qed

lemma keeps_run: "valid_run JSON_parse ops g \<Longrightarrow> keeps g (run JSON_parse ops g)"
proof (induction ops arbitrary: g)
  case Nil
  show ?case by (simp add: keeps_refl)
next
  case (Cons op ops)
  then have "keeps g (exec JSON_parse op g)"
    and "keeps (exec JSON_parse op g) (run JSON_parse ops (exec JSON_parse op g))"
    by (simp_all add: keeps_exec)
  then show ?case by (simp add: keeps_trans)
qed


lemma handled_iff: "handled g t \<longleftrightarrow> (\<exists>p. HandleRequest t p \<in> set (trace g))"
  unfolding handled_def list_ex_iff
proof
  assume "\<exists>e\<in>set (trace g). case e of HandleRequest t' p \<Rightarrow> t' = t | _ \<Rightarrow> False"
  then obtain e where e: "e \<in> set (trace g)"
    and c: "case e of HandleRequest t' p \<Rightarrow> t' = t | _ \<Rightarrow> False" by blast
  from c obtain p where "e = HandleRequest t p" by (cases e) simp_all
  with e show "\<exists>p. HandleRequest t p \<in> set (trace g)" by blast
next
  assume "\<exists>p. HandleRequest t p \<in> set (trace g)"
  then obtain p where "HandleRequest t p \<in> set (trace g)" ..
  then show "\<exists>e\<in>set (trace g). case e of HandleRequest t' p \<Rightarrow> t' = t | _ \<Rightarrow> False"
    by (rule bexI [rotated]) simp
qed

lemma untouched_fire:
  assumes "untouched g c" and "t \<noteq> c \<or> cb = Close"
  shows "untouched (fire t cb g) c"
proof -
  have "sessionId (heap (fire t cb g) ! c) = sessionId (heap g ! c)"
    using assms(2) by (auto simp add: heap_fire_other sessionId_fire_close)
  with assms(1) show ?thesis
    by (simp add: untouched_def handled_iff heap_fire_length trace_fire)
qed

lemma untouched_fires:
  assumes "untouched g c" and "t \<noteq> c"
  shows "untouched (foldl (\<lambda>s cb. fire t cb s) g cbs) c"
  using assms(1)
proof (induction cbs arbitrary: g)
  case Nil
  then show ?case by simp
next
  case (Cons cb cbs)
  then show ?case using assms(2) by (simp add: untouched_fire)
qed

lemma untouched_event:
  assumes "untouched g c" and "e \<noteq> CloseCall c" and "\<And>p. e \<noteq> HandleRequest c p"
  shows "untouched (g\<lparr>trace := trace g @ [e]\<rparr>) c"
  using assms by (auto simp add: untouched_def handled_iff)

lemma untouched_console: "untouched (g\<lparr>console := x\<rparr>) c = untouched g c"
  by (simp add: untouched_def handled_iff)

lemma untouched_transport_handleRequest:
  assumes "untouched g c" and "t \<noteq> c"
  shows "untouched (snd (snd (transport_handleRequest env t payload res g))) c"
proof -
  have "untouched (g\<lparr>trace := trace g @ [HandleRequest t payload]\<rparr>) c"
    using assms by (intro untouched_event) simp_all
  then show ?thesis
    using assms(2) by (simp add: transport_handleRequest_def Let_def untouched_fires)
qed

lemma untouched_createSession:
  assumes "untouched g c"
  shows "untouched (snd (createSession g)) c" and "fst (createSession g) \<noteq> c"
  using assms
  by (auto simp add: untouched_def handled_iff createSession_def Let_def nth_append)

lemma find_transport_registered:
  assumes "find_transport sid g = Some t"
  obtains k where "map_of (transports g) k = Some t" and "sid = Some k" and "k \<noteq> []"
  using assms by (auto simp add: find_transport_def split: option.splits if_splits)

lemma untouched_not_registered:
  assumes "consistent g" and "untouched g c"
  shows "map_of (transports g) k \<noteq> Some c"
proof
  assume "map_of (transports g) k = Some c"
  with assms(1) have "sessionId (heap g ! c) = Some k" by (rule consistent_registered(2))
  with assms(2) show False by (simp add: untouched_def)
qed

lemma untouched_forwarded:
  assumes "consistent g" and "untouched g c" and "forwarded JSON_parse req g = Some (t, g1)"
  shows "t \<noteq> c" and "untouched g1 c"
proof -
  from forwarded_cases [OF assms(3)]
  have "t \<noteq> c \<and> untouched g1 c"
  proof
    assume a: "g1 = g \<and> find_transport (mcp_session_id req) g = Some t"
    then obtain k where "map_of (transports g) k = Some t"
      by (auto elim: find_transport_registered)
    with untouched_not_registered [OF assms(1,2), of k] have "t \<noteq> c" by auto
    with a assms(2) show ?thesis by simp
  next
    assume "createSession g = (t, g1) \<and> find_transport (mcp_session_id req) g = None"
    with untouched_createSession [OF assms(2)] show ?thesis by simp
  qed
  then show "t \<noteq> c" and "untouched g1 c" by simp_all
qed

lemma untouched_handleMcpRequest:
  assumes "consistent g" and "untouched g c" and "pathname req = path g"
  shows "untouched (snd (snd (handleMcpRequest JSON_parse env req res g))) c"
proof (cases "forwarded JSON_parse req g")
  case None
  have "untouched (g1\<lparr>trace := trace g1 @ [ReadBody]\<rparr>) c" if "untouched g1 c" for g1 :: "'a gateway"
    using that by (intro untouched_event) simp_all
  then show ?thesis
    using None assms(2) untouched_createSession(1) [OF assms(2)]
    by (simp add: handleMcpRequest_state [OF assms(3)] Let_def split: option.splits)
next
  case (Some a)
  obtain t g1 where a: "a = (t, g1)" by (cases a)
  have tc: "t \<noteq> c" and g1: "untouched g1 c"
    using untouched_forwarded [OF assms(1,2)] Some a by simp_all
  have "untouched (g1\<lparr>trace := trace g1 @ [ReadBody]\<rparr>) c"
    using g1 by (intro untouched_event) simp_all
  then show ?thesis
    using Some a tc g1
    by (simp add: handleMcpRequest_state [OF assms(3)] untouched_transport_handleRequest)
qed

lemma untouched_requestListener:
  assumes "consistent g" and "untouched g c"
  shows "untouched (snd (requestListener JSON_parse env req g)) c"
  using untouched_handleMcpRequest [OF assms, of req _ env new_response] assms(2)
  by (simp add: requestListener_state Let_def untouched_console split: sum.splits)

lemma untouched_close_all:
  assumes "consistent g" and "untouched g c"
  shows "untouched (close_all ks g) c"
  using assms
proof (induction ks arbitrary: g)
  case Nil
  then show ?case by simp
next
  case (Cons k ks)
  show ?case
  proof (cases "map_of (transports g) k")
    case None
    with Cons show ?thesis by simp
  next
    case (Some t)
    with untouched_not_registered [OF Cons.prems, of k] have tc: "t \<noteq> c" by auto
    have "untouched (g\<lparr>trace := trace g @ [CloseCall t]\<rparr>) c"
      using Cons.prems(2) tc by (intro untouched_event) simp_all
    then have u: "untouched (transport_close t g) c"
      using tc by (simp add: transport_close_def untouched_fire)
    have "consistent (transport_close t g)"
      using Cons.prems(1) Some by (simp add: consistent_transport_close consistent_registered(1))
    with u Some Cons.IH show ?thesis by simp
  qed
qed

lemma untouched_stop:
  assumes "consistent g" and "untouched g c"
  shows "untouched (snd (stop g)) c"
proof -
  let ?g1 = "g\<lparr>console := console g @ [''Shutting down...'']\<rparr>"
  have "untouched (close_all (map fst (transports g)) ?g1) c"
    using assms by (intro untouched_close_all) (simp_all add: consistent_console untouched_console)
  then show ?thesis
    by (simp add: stop_def Let_def httpServer_close_def untouched_def handled_iff)
qed

lemma untouched_exec:
  assumes "consistent g" and "untouched g c" and "op_ok JSON_parse op g"
  shows "untouched (exec JSON_parse op g) c"
proof (cases op)
  case (Exchange req env)
  with assms show ?thesis by (simp add: exec_def untouched_requestListener)
next
  case (Established t sid)
  with assms(3) have "handled g t" by (simp add: op_ok_def)
  with assms(2) have "t \<noteq> c" by (auto simp add: untouched_def)
  with Established assms(2) show ?thesis by (simp add: exec_def untouched_fire)
next
  case (ChannelClosed t)
  with assms(2) show ?thesis by (simp add: exec_def untouched_fire)
next
  case (Start outcome)
  with assms(2) show ?thesis
    by (cases outcome) (simp_all add: exec_def start_def Let_def untouched_def handled_iff)
next
  case Stop
  with assms show ?thesis by (simp add: exec_def untouched_stop)
next
  case CloseEvent
  with assms(2) show ?thesis
    by (simp add: exec_def close_event_def untouched_def handled_iff)
qed

lemma untouched_run:
  "consistent g \<Longrightarrow> untouched g c \<Longrightarrow> valid_run JSON_parse ops g \<Longrightarrow> untouched (run JSON_parse ops g) c"
proof (induction ops arbitrary: g)
  case Nil
  then show ?case by simp
next
  case (Cons op ops)
  then show ?case by (simp add: consistent_exec untouched_exec)
qed


lemma trace_ok_initial: "trace_ok (createMcpHttpServer options)"
  by (simp add: trace_ok_def createMcpHttpServer_def)

lemma trace_ok_fire: "trace_ok g \<Longrightarrow> trace_ok (fire t cb g)"
  by (simp add: trace_ok_def trace_fire heap_fire_length)

lemma trace_ok_fires: "trace_ok g \<Longrightarrow> trace_ok (foldl (\<lambda>s cb. fire t cb s) g cbs)"
  by (induction cbs arbitrary: g) (simp_all add: trace_ok_fire)

lemma trace_ok_console: "trace_ok (g\<lparr>console := x\<rparr>) = trace_ok g"
  by (simp add: trace_ok_def)

lemma trace_ok_transport_handleRequest:
  assumes "trace_ok g" and "t < length (heap g)"
  shows "trace_ok (snd (snd (transport_handleRequest env t payload res g)))"
proof -
  have "trace_ok (g\<lparr>trace := trace g @ [HandleRequest t payload]\<rparr>)"
    using assms by (auto simp add: trace_ok_def)
  then show ?thesis
    by (simp add: transport_handleRequest_def Let_def trace_ok_fires)
qed

lemma trace_ok_createSession: "trace_ok g \<Longrightarrow> trace_ok (snd (createSession g))"
  by (auto simp add: trace_ok_def createSession_def Let_def less_Suc_eq)

lemma trace_ok_ReadBody: "trace_ok (g\<lparr>trace := trace g @ [ReadBody]\<rparr>) = trace_ok g"
  by (simp add: trace_ok_def)

lemma forwarded_exists:
  assumes "consistent g" and "forwarded JSON_parse req g = Some (t, g1)"
  shows "t < length (heap g1)"
proof -
  from forwarded_cases [OF assms(2)] show ?thesis
  proof
    assume a: "g1 = g \<and> find_transport (mcp_session_id req) g = Some t"
    then obtain k where "map_of (transports g) k = Some t"
      by (auto elim: find_transport_registered)
    with assms(1) a show ?thesis by (simp add: consistent_registered(1))
  next
    assume "createSession g = (t, g1) \<and> find_transport (mcp_session_id req) g = None"
    then show ?thesis by (auto simp add: createSession_def Let_def)
  qed
qed

lemma forwarded_trace_ok:
  assumes "trace_ok g" and "forwarded JSON_parse req g = Some (t, g1)"
  shows "trace_ok g1"
  using forwarded_cases [OF assms(2)] assms(1) trace_ok_createSession [of g] by auto

lemma trace_ok_handleMcpRequest:
  assumes "consistent g" and "trace_ok g" and "pathname req = path g"
  shows "trace_ok (snd (snd (handleMcpRequest JSON_parse env req res g)))"
proof (cases "forwarded JSON_parse req g")
  case None
  then show ?thesis
    using assms(2) trace_ok_createSession [OF assms(2)]
    by (simp add: handleMcpRequest_state [OF assms(3)] Let_def trace_ok_ReadBody
        split: option.splits)
next
  case (Some a)
  obtain t g1 where a: "a = (t, g1)" by (cases a)
  have t: "t < length (heap g1)" and g1: "trace_ok g1"
    using forwarded_exists [OF assms(1)] forwarded_trace_ok [OF assms(2)] Some a by simp_all
  have "trace_ok (snd (snd (transport_handleRequest env t p res
          (g1\<lparr>trace := trace g1 @ [ReadBody]\<rparr>))))" for p
    using t g1 by (intro trace_ok_transport_handleRequest) (simp_all add: trace_ok_ReadBody)
  then show ?thesis
    using Some a t g1
    by (simp add: handleMcpRequest_state [OF assms(3)] trace_ok_transport_handleRequest)
qed

lemma trace_ok_requestListener:
  assumes "consistent g" and "trace_ok g"
  shows "trace_ok (snd (requestListener JSON_parse env req g))"
  using trace_ok_handleMcpRequest [OF assms, of req _ env new_response] assms(2)
  by (simp add: requestListener_state Let_def trace_ok_console split: sum.splits)

lemma trace_ok_transport_close:
  assumes "trace_ok g" and "t < length (heap g)"
  shows "trace_ok (transport_close t g)"
proof -
  have "trace_ok (g\<lparr>trace := trace g @ [CloseCall t]\<rparr>)"
    using assms by (auto simp add: trace_ok_def)
  then show ?thesis by (simp add: transport_close_def trace_ok_fire)
qed

lemma trace_ok_close_all: "consistent g \<Longrightarrow> trace_ok g \<Longrightarrow> trace_ok (close_all ks g)"
proof (induction ks arbitrary: g)
  case Nil
  then show ?case by simp
next
  case (Cons k ks)
  show ?case
  proof (cases "map_of (transports g) k")
    case None
    with Cons show ?thesis by simp
  next
    case (Some t)
    with Cons.prems have t: "t < length (heap g)" by (simp add: consistent_registered(1))
    then have "consistent (transport_close t g)" and "trace_ok (transport_close t g)"
      using Cons.prems by (simp_all add: consistent_transport_close trace_ok_transport_close)
    with Some Cons.IH show ?thesis by simp
  qed
qed

lemma trace_ok_stop:
  assumes "consistent g" and "trace_ok g"
  shows "trace_ok (snd (stop g))"
proof -
  let ?g1 = "g\<lparr>console := console g @ [''Shutting down...'']\<rparr>"
  have "trace_ok (close_all (map fst (transports g)) ?g1)"
    using assms by (intro trace_ok_close_all) (simp_all add: consistent_console trace_ok_console)
  then show ?thesis
    by (simp add: stop_def Let_def httpServer_close_def trace_ok_def)
qed

lemma trace_ok_exec:
  assumes "consistent g" and "trace_ok g"
  shows "trace_ok (exec JSON_parse op g)"
proof (cases op)
  case (Exchange req env)
  with assms show ?thesis by (simp add: exec_def trace_ok_requestListener)
next
  case (Established t sid)
  with assms(2) show ?thesis by (simp add: exec_def trace_ok_fire)
next
  case (ChannelClosed t)
  with assms(2) show ?thesis by (simp add: exec_def trace_ok_fire)
next
  case (Start outcome)
  with assms(2) show ?thesis
    by (cases outcome) (simp_all add: exec_def start_def Let_def trace_ok_def)
next
  case Stop
  with assms show ?thesis by (simp add: exec_def trace_ok_stop)
next
  case CloseEvent
  with assms(2) show ?thesis by (simp add: exec_def close_event_def trace_ok_def)
qed

lemma trace_ok_run:
  "consistent g \<Longrightarrow> trace_ok g \<Longrightarrow> valid_run JSON_parse ops g \<Longrightarrow> trace_ok (run JSON_parse ops g)"
proof (induction ops arbitrary: g)
  case Nil
  then show ?case by simp
next
  case (Cons op ops)
  then show ?case by (simp add: consistent_exec trace_ok_exec)
qed

section \<open>Where registry keys come from\<close>

lemma keys_fire:
  "fst ` set (transports (fire t cb g)) \<subseteq> fst ` set (transports g) \<union> set (ids_of [cb])"
proof (cases cb)
  case (SessionInitialized sid)
  then show ?thesis
    by (simp add: fire_def onsessioninitialized_def assign_id_def ids_of_def dom_update)
next
  case Close
  have "fst ` set (AList.delete k (transports g)) \<subseteq> fst ` set (transports g)" for k
    by (rule dom_delete_subset)
  with Close show ?thesis
    by (simp add: fire_def onclose_def mark_closed_def ids_of_def split: option.splits)
qed

lemma keys_fires:
  "fst ` set (transports (foldl (\<lambda>s cb. fire t cb s) g cbs))
     \<subseteq> fst ` set (transports g) \<union> set (ids_of cbs)"
proof (induction cbs arbitrary: g)
  case Nil
  show ?case by simp
next
  case (Cons cb cbs)
  have "fst ` set (transports (foldl (\<lambda>s cb. fire t cb s) (fire t cb g) cbs))
          \<subseteq> fst ` set (transports (fire t cb g)) \<union> set (ids_of cbs)"
    by (rule Cons.IH)
  also have "\<dots> \<subseteq> (fst ` set (transports g) \<union> set (ids_of [cb])) \<union> set (ids_of cbs)"
    using keys_fire [of t cb g] by blast
  finally show ?case
    by (simp add: ids_of_def Un_assoc)
qed

lemma keys_transport_handleRequest:
  "fst ` set (transports (snd (snd (transport_handleRequest env t payload res g))))
     \<subseteq> fst ` set (transports g) \<union> set (ids_of (fires env))"
  using keys_fires [of t "g\<lparr>trace := trace g @ [HandleRequest t payload]\<rparr>" "fires env"]
  by (simp add: transport_handleRequest_def Let_def)

lemma transports_createSession: "transports (snd (createSession g)) = transports g"
  by (simp add: createSession_def Let_def)

lemma forwarded_transports:
  assumes "forwarded JSON_parse req g = Some (t, g1)"
  shows "transports g1 = transports g"
  using forwarded_cases [OF assms] transports_createSession [of g] by auto

lemma keys_handleMcpRequest:
  assumes "pathname req = path g"
  shows "fst ` set (transports (snd (snd (handleMcpRequest JSON_parse env req res g))))
           \<subseteq> fst ` set (transports g) \<union> set (ids_of (fires env))"
proof (cases "forwarded JSON_parse req g")
  case None
  then show ?thesis
    by (simp add: handleMcpRequest_state [OF assms] Let_def transports_createSession
        split: option.splits)
next
  case (Some a)
  obtain t g1 where a: "a = (t, g1)" by (cases a)
  have g1: "transports g1 = transports g"
    using Some a by (simp add: forwarded_transports)
  show ?thesis
    using keys_transport_handleRequest [of env t _ res g1]
      keys_transport_handleRequest [of env t _ res "g1\<lparr>trace := trace g1 @ [ReadBody]\<rparr>"]
      Some a g1
    by (simp add: handleMcpRequest_state [OF assms])
qed

lemma keys_requestListener:
  "fst ` set (transports (snd (requestListener JSON_parse env req g)))
     \<subseteq> fst ` set (transports g) \<union> set (ids_of (fires env))"
  using keys_handleMcpRequest [of req g _ env new_response]
  by (simp add: requestListener_state Let_def split: sum.splits)

lemma keys_transport_close:
  "fst ` set (transports (transport_close t g)) \<subseteq> fst ` set (transports g)"
  using keys_fire [of t Close "g\<lparr>trace := trace g @ [CloseCall t]\<rparr>"]
  by (simp add: transport_close_def ids_of_def)

lemma keys_close_all: "fst ` set (transports (close_all ks g)) \<subseteq> fst ` set (transports g)"
proof (induction ks arbitrary: g)
  case Nil
  show ?case by simp
next
  case (Cons k ks)
  show ?case
  proof (cases "map_of (transports g) k")
    case None
    then show ?thesis by (simp add: Cons.IH)
  next
    case (Some t)
    have "fst ` set (transports (close_all ks (transport_close t g)))
            \<subseteq> fst ` set (transports (transport_close t g))"
      by (rule Cons.IH)
    also have "\<dots> \<subseteq> fst ` set (transports g)"
      by (rule keys_transport_close)
    finally show ?thesis using Some by simp
  qed
qed

lemma keys_stop: "fst ` set (transports (snd (stop g))) \<subseteq> fst ` set (transports g)"
  using keys_close_all [of "map fst (transports g)" "g\<lparr>console := console g @ [''Shutting down...'']\<rparr>"]
  by (simp add: stop_def Let_def httpServer_close_def)

lemma keys_exec:
  "fst ` set (transports (exec JSON_parse op g)) \<subseteq> fst ` set (transports g) \<union> announced op"
proof (cases op)
  case (Exchange req env)
  then show ?thesis by (simp add: exec_def announced_def keys_requestListener)
next
  case (Established t sid)
  then show ?thesis
    using keys_fire [of t "SessionInitialized sid" g]
    by (simp add: exec_def announced_def ids_of_def)
next
  case (ChannelClosed t)
  then show ?thesis
    using keys_fire [of t Close g] by (simp add: exec_def announced_def ids_of_def)
next
  case (Start outcome)
  then show ?thesis by (cases outcome) (simp_all add: exec_def start_def Let_def)
next
  case Stop
  then show ?thesis using keys_stop [of g] by (simp add: exec_def announced_def)
next
  case CloseEvent
  then show ?thesis by (simp add: exec_def close_event_def)
qed

lemma transports_quiet_handleRequest:
  assumes "fires env = []"
  shows "transports (snd (snd (transport_handleRequest env t payload res g))) = transports g"
  using assms by (simp add: transport_handleRequest_def Let_def)

lemma transports_quiet_exchange:
  assumes "fires env = []"
  shows "transports (snd (requestListener JSON_parse env req g)) = transports g"
proof (cases "pathname req = path g")
  case False
  then show ?thesis by (simp add: requestListener_state)
next
  case True
  have "transports (snd (snd (handleMcpRequest JSON_parse env req new_response g))) = transports g"
  proof (cases "forwarded JSON_parse req g")
    case None
    then show ?thesis
      by (simp add: handleMcpRequest_state [OF True] Let_def transports_createSession
          split: option.splits)
  next
    case (Some a)
    obtain t g1 where a: "a = (t, g1)" by (cases a)
    with Some have "transports g1 = transports g" by (simp add: forwarded_transports)
    with Some a show ?thesis
      by (simp add: handleMcpRequest_state [OF True] transports_quiet_handleRequest [OF assms])
  qed
  with True show ?thesis
    by (simp add: requestListener_state Let_def split: sum.splits)
qed

lemma onclose_without_id:
  assumes "sessionId_of g t = None"
  shows "onclose t g = g"
  using assms by (simp add: onclose_def)

lemma consistent_reachable:
  assumes "valid_run JSON_parse ops (createMcpHttpServer options)"
  shows "consistent (run JSON_parse ops (createMcpHttpServer options))"
  using consistent_initial assms by (rule consistent_run)

section \<open>The example run\<close>

lemmas gateway_defs =
  exec_def requestListener_def handleMcpRequest_def transport_handleRequest_def parseBody_def
  find_transport_def createSession_def fire_def onsessioninitialized_def onclose_def
  assign_id_def mark_closed_def sessionId_of_def start_def stop_def transport_close_def
  httpServer_close_def close_event_def new_response_def sendJson_def collected_def
  toString_def idle_def lead_def step_def

lemmas example_defs =
  example_gateway_def createMcpHttpServer_def example_parse_def env_quiet_def env_open_def
  env_close_def env_broken_def example_request_def example_run_def

lemmas utf8_defs = collected_def toString_def idle_def lead_def step_def

lemma dec_3000: "dec 3000 = ''3000''"
  by (simp add: dec.simps digit_char_def)

lemma example_run_state: "run example_parse example_run example_gateway = one_session"
  by (simp add: gateway_defs example_defs one_session_def dec_3000 Let_def)

lemma example_run_valid: "valid_run example_parse example_run example_gateway"
  by (simp add: gateway_defs example_defs op_ok_def forwarded_def init_ok_def Let_def)

text \<open>The state \<open>pending_session\<close> is reached when the channel stays silent.\<close>

lemma pending_session_reached:
  "run example_parse [Exchange (example_request ''POST'' None [''{}'']) env_quiet] example_gateway
     = pending_session"
  by (simp add: gateway_defs example_defs pending_session_def Let_def)

section \<open>Calls made during a POST\<close>

lemma trace_fires: "trace (foldl (\<lambda>s cb. fire t cb s) g cbs) = trace g"
  by (induction cbs arbitrary: g) (simp_all add: trace_fire)

lemma servers_fires: "servers (foldl (\<lambda>s cb. fire t cb s) g cbs) = servers g"
  by (induction cbs arbitrary: g) (simp_all add: servers_fire)

lemma trace_transport_handleRequest:
  "trace (snd (snd (transport_handleRequest env t payload res g)))
     = trace g @ [HandleRequest t payload]"
  by (simp add: transport_handleRequest_def Let_def trace_fires)

lemma servers_transport_handleRequest:
  "servers (snd (snd (transport_handleRequest env t payload res g))) = servers g"
  by (simp add: transport_handleRequest_def Let_def servers_fires)

text \<open>The calls a POST makes on its collaborators, in order.\<close>

lemma trace_POST:
  assumes "req_method req = ''POST''"
  shows "trace (snd (snd (handleMcpRequest JSON_parse env req res g))) =
     trace g
     @ (case find_transport (mcp_session_id req) g of
          Some t \<Rightarrow> []
        | None \<Rightarrow> [Factory (servers g), Connect (servers g) (length (heap g))])
     @ [ReadBody]
     @ (case parseBody JSON_parse req of
          Inl e \<Rightarrow> []
        | Inr payload \<Rightarrow>
            [HandleRequest (case find_transport (mcp_session_id req) g of
                              Some t \<Rightarrow> t | None \<Rightarrow> length (heap g)) payload])"
  using assms
  by (simp add: handleMcpRequest_def Let_def createSession_def trace_transport_handleRequest
      split: option.splits sum.splits)

lemma payloads_append: "payloads (xs @ ys) = payloads xs @ payloads ys"
  by (simp add: payloads_def)

lemma payloads_simps:
  "payloads [] = []"
  "payloads (Factory n # evs) = payloads evs"
  "payloads (Connect n t # evs) = payloads evs"
  "payloads (ReadBody # evs) = payloads evs"
  "payloads (HandleRequest t p # evs) = p # payloads evs"
  "payloads (CloseCall t # evs) = payloads evs"
  "payloads (Listen n # evs) = payloads evs"
  "payloads (ServerClose # evs) = payloads evs"
  by (simp_all add: payloads_def)

lemma payloads_POST:
  assumes "req_method req = ''POST''"
  shows "payloads (trace (snd (snd (handleMcpRequest JSON_parse env req res g)))) =
     payloads (trace g) @ (case parseBody JSON_parse req of Inl e \<Rightarrow> [] | Inr payload \<Rightarrow> [payload])"
  by (simp add: trace_POST [OF assms] payloads_append payloads_simps
      split: option.splits sum.splits)

lemma response_POST_failure:
  assumes "req_method req = ''POST''" and "parseBody JSON_parse req = Inl e"
  shows "fst (handleMcpRequest JSON_parse env req res g) = Inl e"
    and "fst (snd (handleMcpRequest JSON_parse env req res g)) = res"
  using assms by (simp_all add: handleMcpRequest_def Let_def split: option.splits prod.splits)

section \<open>A POST whose body does not parse\<close>

lemma trace_ok_reachable:
  assumes "valid_run JSON_parse ops (createMcpHttpServer options)"
  shows "trace_ok (run JSON_parse ops (createMcpHttpServer options))"
  using consistent_initial trace_ok_initial assms by (rule trace_ok_run)

lemma unparseable:
  assumes "\<not> stream_error req" and "collected req \<noteq> []"
    and "JSON_parse (collected req) = None"
  shows "parseBody JSON_parse req = Inl SyntaxError"
  using assms by (simp add: parseBody_def)

lemma unparseable_POST_state:
  assumes "req_method req = ''POST''" and "pathname req = path g"
    and "parseBody JSON_parse req = Inl e"
  shows "snd (requestListener JSON_parse env req g) =
     (case find_transport (mcp_session_id req) g of
        Some t \<Rightarrow> g\<lparr>trace := trace g @ [ReadBody],
                     console := console g @ [''Error handling request:'']\<rparr>
      | None \<Rightarrow> g\<lparr>servers := Suc (servers g),
                    heap := heap g @ [\<lparr>sessionId = None, closed = False, server = servers g\<rparr>],
                    trace := trace g @ [Factory (servers g),
                                        Connect (servers g) (length (heap g)), ReadBody],
                    console := console g @ [''Error handling request:'']\<rparr>)"
  using assms
  by (simp add: requestListener_def handleMcpRequest_def createSession_def Let_def
      split: option.splits)

lemma fresh_channel_untouched:
  assumes "trace_ok g"
  shows "untouched (g\<lparr>servers := n, heap := heap g @ [\<lparr>sessionId = None, closed = False, server = m\<rparr>],
                      trace := trace g @ [Factory a, Connect b c, ReadBody],
                      console := x\<rparr>) (length (heap g))"
  using assms by (auto simp add: untouched_def handled_iff trace_ok_def)

section \<open>Draining the registry\<close>

lemma transports_transport_close:
  assumes "consistent g" and "transports g = (k, t) # rest"
  shows "transports (transport_close t g) = rest"
    and "trace (transport_close t g) = trace g @ [CloseCall t]"
    and "listener (transport_close t g) = listener g"
    and "console (transport_close t g) = console g @ [''Session closed: '' @ k]"
proof -
  have reg: "map_of (transports g) k = Some t"
    using assms(2) by simp
  with assms(1) have t: "t < length (heap g)" and sid: "sessionId (heap g ! t) = Some k"
    by (simp_all add: consistent_registered)
  have "Some [] \<notin> set (map sessionId (heap g))"
    using assms(1) by (simp add: consistent_def consistent_heap_def)
  with t sid have k: "k \<noteq> []"
    by (metis length_map nth_map nth_mem)
  have "distinct (map fst (transports g))"
    using assms(1) by (simp add: consistent_def consistent_heap_def)
  with assms(2) have "k \<notin> fst ` set rest" by simp
  then have "AList.delete k rest = rest" by simp
  with t sid k assms(2) show "transports (transport_close t g) = rest"
    by (simp add: transport_close_def fire_def onclose_def mark_closed_def sessionId_of_def)
  show "trace (transport_close t g) = trace g @ [CloseCall t]"
    by (simp add: transport_close_def trace_fire)
  from t sid k show "listener (transport_close t g) = listener g"
    by (simp add: transport_close_def fire_def onclose_def mark_closed_def sessionId_of_def)
  from t sid k show "console (transport_close t g) = console g @ [''Session closed: '' @ k]"
    by (simp add: transport_close_def fire_def onclose_def mark_closed_def sessionId_of_def)
qed

lemma close_all_drains:
  assumes "consistent g" and "transports g = reg"
  shows "transports (close_all (map fst reg) g) = []
       \<and> trace (close_all (map fst reg) g) = trace g @ map CloseCall (map snd reg)
       \<and> listener (close_all (map fst reg) g) = listener g"
  using assms
proof (induction reg arbitrary: g)
  case Nil
  then show ?case by simp
next
  case (Cons e rest)
  obtain k t where e: "e = (k, t)" by (cases e)
  let ?g1 = "transport_close t g"
  have reg: "transports g = (k, t) # rest"
    using Cons.prems(2) e by simp
  then have "map_of (transports g) k = Some t" by simp
  with Cons.prems(1) have "t < length (heap g)" by (simp add: consistent_registered)
  with Cons.prems(1) have c1: "consistent ?g1" by (simp add: consistent_transport_close)
  note step = transports_transport_close [OF Cons.prems(1) reg]
  from Cons.IH [OF c1 step(1)] reg e step(2,3) show ?case
    by simp
qed

lemma closed_after_drain:
  assumes "consistent g" and "keeps g g'" and "consistent g'" and "transports g' = []"
    and "map_of (transports g) k = Some t"
  shows "closed (heap g' ! t)"
proof -
  from assms(1,5) have t: "t < length (heap g)" and sid: "sessionId (heap g ! t) = Some k"
    by (simp_all add: consistent_registered)
  with assms(2) have "t < length (heap g')" and "sessionId (heap g' ! t) = Some k"
    by (auto simp add: keeps_def)
  moreover have "map_of (transports g') k \<noteq> Some t"
    using assms(4) by simp
  ultimately show ?thesis
    using assms(3) by (auto simp add: consistent_def consistent_heap_def live_def)
qed

section \<open>Creating a session and finding it again\<close>

lemma update_new_key:
  assumes "k \<notin> fst ` set al"
  shows "AList.update k v al = al @ [(k, v)]"
  using assms by (induction al) auto

lemma filter_new_key:
  assumes "k \<notin> fst ` set al"
  shows "filter (\<lambda>e. fst e = k) (AList.update k v al) = [(k, v)]"
proof -
  have "filter (\<lambda>e. fst e = k) al = []"
    using assms by (auto simp add: filter_empty_conv)
  then show ?thesis
    using assms by (simp add: update_new_key)
qed

lemma fresh_not_key:
  assumes "consistent g" and "Some sid \<notin> set (map sessionId (heap g))"
  shows "sid \<notin> fst ` set (transports g)"
proof
  assume "sid \<in> fst ` set (transports g)"
  then obtain t where "(sid, t) \<in> set (transports g)" by auto
  moreover have "distinct (map fst (transports g))"
    using assms(1) by (simp add: consistent_def consistent_heap_def)
  ultimately have "map_of (transports g) sid = Some t" by simp
  with assms(1) have "live (heap g) t sid"
    by (simp add: consistent_def consistent_heap_def)
  with assms(2) show False
    using live_fresh by blast
qed

text \<open>The state after a POST that creates a session whose channel announces one id.\<close>

lemma created_state:
  assumes "req_method req = ''POST''" and "pathname req = path g"
    and "find_transport (mcp_session_id req) g = None"
    and "parseBody JSON_parse req = Inr payload"
    and "fires env = [SessionInitialized sid]"
  shows "snd (requestListener JSON_parse env req g) =
     (let g' = g\<lparr>transports := AList.update sid (length (heap g)) (transports g),
                 heap := heap g @ [\<lparr>sessionId = Some sid, closed = False, server = servers g\<rparr>],
                 servers := Suc (servers g),
                 trace := trace g @ [Factory (servers g), Connect (servers g) (length (heap g)),
                                     ReadBody, HandleRequest (length (heap g)) payload],
                 console := console g @ [''Session initialized: '' @ sid]\<rparr>
      in if rejects env
         then g'\<lparr>console := console g' @ [''Error handling request:'']\<rparr>
         else g')"
  using assms
  by (simp add: requestListener_def handleMcpRequest_def createSession_def
      transport_handleRequest_def fire_def onsessioninitialized_def assign_id_def Let_def)

lemma routed_to_registered:
  assumes "map_of (transports g) sid = Some t" and "sid \<noteq> []"
    and "mcp_session_id req = Some sid"
  shows "req_method req = ''POST'' \<longrightarrow> parseBody JSON_parse req = Inr payload \<longrightarrow>
           handleMcpRequest JSON_parse env req res g
             = transport_handleRequest env t payload res (g\<lparr>trace := trace g @ [ReadBody]\<rparr>)"
    and "req_method req = ''GET'' \<or> req_method req = ''DELETE'' \<longrightarrow>
           handleMcpRequest JSON_parse env req res g = transport_handleRequest env t None res g"
    and "servers (snd (snd (handleMcpRequest JSON_parse env req res g))) = servers g"
proof -
  have f: "find_transport (mcp_session_id req) g = Some t"
    using assms by (simp add: find_transport_def)
  show "req_method req = ''POST'' \<longrightarrow> parseBody JSON_parse req = Inr payload \<longrightarrow>
           handleMcpRequest JSON_parse env req res g
             = transport_handleRequest env t payload res (g\<lparr>trace := trace g @ [ReadBody]\<rparr>)"
    using f by (simp add: handleMcpRequest_def)
  show "req_method req = ''GET'' \<or> req_method req = ''DELETE'' \<longrightarrow>
           handleMcpRequest JSON_parse env req res g = transport_handleRequest env t None res g"
    using f by (auto simp add: handleMcpRequest_def)
  show "servers (snd (snd (handleMcpRequest JSON_parse env req res g))) = servers g"
    using f
    by (simp add: handleMcpRequest_def Let_def servers_transport_handleRequest
        split: sum.splits)
qed

lemma servers_requestListener:
  "servers (snd (requestListener JSON_parse env req g))
     = servers (snd (snd (handleMcpRequest JSON_parse env req new_response g)))
   \<or> servers (snd (requestListener JSON_parse env req g)) = servers g"
  by (simp add: requestListener_state Let_def split: sum.splits)

section \<open>The registry invariant\<close>

text \<open>
  Claim C1. In every state that a run of the gateway reaches from its initial state, with
  channels that announce an id at most once, not after closing, and with ids that are
  fresh and not empty: an id \<open>sid\<close> is a key of the registry with channel \<open>t\<close> exactly when
  \<open>t\<close> is a channel that has been given the id \<open>sid\<close> and has not fired its closed
  callback; the keys are unique. A step adds no key but the ids announced in that step, an
  exchange in which the channel fires no callback leaves the registry as it was (a lookup
  inserts nothing), and the closed callback of a channel without an id changes nothing.
\<close>

theorem registry_invariant:
  assumes "valid_run JSON_parse ops (createMcpHttpServer options)"
    and "g = run JSON_parse ops (createMcpHttpServer options)"
  shows "((map_of (transports g) sid = Some t)
            = (t < length (heap g) \<and> sessionId (heap g ! t) = Some sid \<and> \<not> closed (heap g ! t)))
       \<and> distinct (map fst (transports g))
       \<and> fst ` set (transports (exec JSON_parse op s)) \<subseteq> fst ` set (transports s) \<union> announced op
       \<and> (fires env = [] \<longrightarrow> transports (exec JSON_parse (Exchange req env) s') = transports s')
       \<and> (sessionId_of s'' c = None \<longrightarrow> onclose c s'' = s'')"
proof -
  have "consistent g"
    using assms by (simp add: consistent_reachable)
  then have "(map_of (transports g) sid = Some t) = live (heap g) t sid"
    and "distinct (map fst (transports g))"
    by (simp_all add: consistent_def consistent_heap_def)
  moreover have "fires env = [] \<longrightarrow> transports (exec JSON_parse (Exchange req env) s') = transports s'"
    by (simp add: exec_def transports_quiet_exchange)
  ultimately show ?thesis
    by (simp add: live_def keys_exec onclose_without_id)
qed

theorem registry_invariant_witness:
  "valid_run example_parse example_run example_gateway
   \<and> map_of (transports one_session) ''s1'' = Some 0
   \<and> 0 < length (heap one_session)
   \<and> sessionId (heap one_session ! 0) = Some ''s1''
   \<and> \<not> closed (heap one_session ! 0)
   \<and> distinct (map fst (transports one_session))
   \<and> fst ` set (transports (exec example_parse Stop one_session))
        \<subseteq> fst ` set (transports one_session) \<union> announced Stop
   \<and> fires env_quiet = []
   \<and> transports (exec example_parse
        (Exchange (example_request ''GET'' (Some ''s1'') []) env_quiet) one_session)
        = transports one_session
   \<and> sessionId_of pending_session 0 = None
   \<and> onclose 0 pending_session = pending_session"
proof -
  have v: "valid_run example_parse example_run (createMcpHttpServer \<lparr>opt_port = None, opt_path = None\<rparr>)"
    using example_run_valid by (simp add: example_gateway_def)
  have s: "one_session
             = run example_parse example_run (createMcpHttpServer \<lparr>opt_port = None, opt_path = None\<rparr>)"
    using example_run_state by (simp add: example_gateway_def)
  have q: "fires env_quiet = []" by (simp add: env_quiet_def)
  have n: "sessionId_of pending_session 0 = None"
    by (simp add: sessionId_of_def pending_session_def)
  from registry_invariant [OF v s, where sid = "''s1''" and t = 0 and op = Stop and s = one_session
      and env = env_quiet and req = "example_request ''GET'' (Some ''s1'') []"
      and s' = one_session and s'' = pending_session and c = 0]
  show ?thesis
    using example_run_valid q n
    by (simp add: one_session_def)
qed

section \<open>Create, then reuse\<close>

text \<open>
  Claim C2, as the code has it. In a state that a run has reached, a POST that carries no
  registered session id, whose body can be read and whose channel announces the fresh id
  \<open>X\<close>, calls the factory once, connects the new engine instance to a new channel \<open>c\<close>,
  and leaves exactly one registry entry for \<open>X\<close>, which holds \<open>c\<close>. In every state that a
  later run reaches, \<open>X\<close> is registered to \<open>c\<close> or not registered at all, never to another
  channel; and for as long as \<open>X\<close> is registered, a POST, GET or DELETE that carries \<open>X\<close> is
  handed to that same channel \<open>c\<close> and the factory is not called.
\<close>

theorem create_then_reuse:
  assumes \<open>valid_run JSON_parse ops (createMcpHttpServer options)\<close>
    and \<open>g = run JSON_parse ops (createMcpHttpServer options)\<close>
    and \<open>req_method req = ''POST''\<close> and \<open>pathname req = path g\<close>
    and \<open>find_transport (mcp_session_id req) g = None\<close>
    and \<open>parseBody JSON_parse req = Inr payload\<close>
    and \<open>fires env = [SessionInitialized X]\<close>
    and \<open>X \<noteq> []\<close> and \<open>Some X \<notin> set (map sessionId (heap g))\<close>
    and \<open>g' = snd (requestListener JSON_parse env req g)\<close>
    and \<open>c = length (heap g)\<close>
  shows \<open>servers g' = Suc (servers g)
       \<and> trace g' = trace g @ [Factory (servers g), Connect (servers g) c, ReadBody,
                                HandleRequest c payload]
       \<and> heap g' = heap g @ [\<lparr>sessionId = Some X, closed = False, server = servers g\<rparr>]
       \<and> filter (\<lambda>e. fst e = X) (transports g') = [(X, c)]
       \<and> map_of (transports g') X = Some c
       \<and> (valid_run JSON_parse later g' \<longrightarrow>
            (map_of (transports (run JSON_parse later g')) X = Some c
             \<or> map_of (transports (run JSON_parse later g')) X = None)
            \<and> (map_of (transports (run JSON_parse later g')) X = Some c \<longrightarrow>
                 mcp_session_id req2 = Some X \<longrightarrow>
                 (req_method req2 = ''POST'' \<longrightarrow> parseBody JSON_parse req2 = Inr payload2 \<longrightarrow>
                    handleMcpRequest JSON_parse env2 req2 res (run JSON_parse later g')
                      = transport_handleRequest env2 c payload2 res
                          ((run JSON_parse later g')
                             \<lparr>trace := trace (run JSON_parse later g') @ [ReadBody]\<rparr>))
                 \<and> (req_method req2 = ''GET'' \<or> req_method req2 = ''DELETE'' \<longrightarrow>
                    handleMcpRequest JSON_parse env2 req2 res (run JSON_parse later g')
                      = transport_handleRequest env2 c None res (run JSON_parse later g'))
                 \<and> servers (snd (requestListener JSON_parse env2 req2 (run JSON_parse later g')))
                      = servers (run JSON_parse later g')))\<close>
proof -
  have cons: \<open>consistent g\<close>
    using assms(1,2) by (simp add: consistent_reachable)
  have fw: \<open>forwarded JSON_parse req g = Some (createSession g)\<close>
    using assms(3-6) by (simp add: forwarded_def)
  have ok: \<open>op_ok JSON_parse (Exchange req env) g\<close>
    using fw assms(7-9)
    by (simp add: op_ok_def createSession_def Let_def init_ok_def nth_append)
  have cons': \<open>consistent g'\<close>
    using cons ok unfolding assms(10) by (rule consistent_requestListener)
  note st = created_state [OF assms(3-7), folded assms(10,11)]
  have key: \<open>X \<notin> fst ` set (transports g)\<close>
    using cons assms(9) by (rule fresh_not_key)
  have first: \<open>servers g' = Suc (servers g)\<close>
    \<open>trace g' = trace g @ [Factory (servers g), Connect (servers g) c, ReadBody,
                                HandleRequest c payload]\<close>
    \<open>heap g' = heap g @ [\<lparr>sessionId = Some X, closed = False, server = servers g\<rparr>]\<close>
    \<open>filter (\<lambda>e. fst e = X) (transports g') = [(X, c)]\<close>
    \<open>map_of (transports g') X = Some c\<close>
    using key by (simp_all add: st Let_def filter_new_key update_conv')
  have later: \<open>(map_of (transports (run JSON_parse later g')) X = Some c
             \<or> map_of (transports (run JSON_parse later g')) X = None)
            \<and> (map_of (transports (run JSON_parse later g')) X = Some c \<longrightarrow>
                 mcp_session_id req2 = Some X \<longrightarrow>
                 (req_method req2 = ''POST'' \<longrightarrow> parseBody JSON_parse req2 = Inr payload2 \<longrightarrow>
                    handleMcpRequest JSON_parse env2 req2 res (run JSON_parse later g')
                      = transport_handleRequest env2 c payload2 res
                          ((run JSON_parse later g')
                             \<lparr>trace := trace (run JSON_parse later g') @ [ReadBody]\<rparr>))
                 \<and> (req_method req2 = ''GET'' \<or> req_method req2 = ''DELETE'' \<longrightarrow>
                    handleMcpRequest JSON_parse env2 req2 res (run JSON_parse later g')
                      = transport_handleRequest env2 c None res (run JSON_parse later g'))
                 \<and> servers (snd (requestListener JSON_parse env2 req2 (run JSON_parse later g')))
                      = servers (run JSON_parse later g'))\<close>
    if v: \<open>valid_run JSON_parse later g'\<close>
  proof -
    let ?g2 = \<open>run JSON_parse later g'\<close>
    have c2: \<open>consistent ?g2\<close> using cons' v by (rule consistent_run)
    have k2: \<open>keeps g' ?g2\<close> using v by (rule keeps_run)
    have \<open>c < length (heap g')\<close> \<open>sessionId (heap g' ! c) = Some X\<close>
      by (simp_all add: first(3) assms(11))
    with k2 have here: \<open>c < length (heap ?g2)\<close> \<open>sessionId (heap ?g2 ! c) = Some X\<close>
      by (auto simp add: keeps_def)
    have only: \<open>t = c\<close> if \<open>map_of (transports ?g2) X = Some t\<close> for t
    proof -
      from c2 that have \<open>t < length (heap ?g2)\<close> \<open>sessionId (heap ?g2 ! t) = Some X\<close>
        by (simp_all add: consistent_registered)
      moreover have \<open>ids_unique (heap ?g2)\<close>
        using c2 by (simp add: consistent_def consistent_heap_def)
      ultimately show ?thesis
        using here unfolding ids_unique_def by blast
    qed
    then have a: \<open>map_of (transports ?g2) X = Some c \<or> map_of (transports ?g2) X = None\<close>
      by (cases \<open>map_of (transports ?g2) X\<close>) auto
    have b: \<open>(req_method req2 = ''POST'' \<longrightarrow> parseBody JSON_parse req2 = Inr payload2 \<longrightarrow>
                    handleMcpRequest JSON_parse env2 req2 res ?g2
                      = transport_handleRequest env2 c payload2 res
                          (?g2\<lparr>trace := trace ?g2 @ [ReadBody]\<rparr>))
                 \<and> (req_method req2 = ''GET'' \<or> req_method req2 = ''DELETE'' \<longrightarrow>
                    handleMcpRequest JSON_parse env2 req2 res ?g2
                      = transport_handleRequest env2 c None res ?g2)
                 \<and> servers (snd (requestListener JSON_parse env2 req2 ?g2)) = servers ?g2\<close>
      if r: \<open>map_of (transports ?g2) X = Some c\<close> and h: \<open>mcp_session_id req2 = Some X\<close>
      using routed_to_registered(1) [OF r assms(8) h, where JSON_parse = JSON_parse
          and payload = payload2 and env = env2 and res = res]
        routed_to_registered(2) [OF r assms(8) h, where JSON_parse = JSON_parse
          and env = env2 and res = res]
        routed_to_registered(3) [OF r assms(8) h, where JSON_parse = JSON_parse
          and env = env2 and res = new_response]
        servers_requestListener [of JSON_parse env2 req2 ?g2]
      by auto
    from a b show ?thesis by blast
  qed
  from first later show ?thesis by blast
qed


theorem create_then_reuse_witness:
  \<open>valid_run example_parse [Start Bound] example_gateway
   \<and> run example_parse [Start Bound] example_gateway = started
   \<and> find_transport (mcp_session_id (example_request ''POST'' None [''{}''])) started = None
   \<and> parseBody example_parse (example_request ''POST'' None [''{}'']) = Inr (Some 7)
   \<and> snd (requestListener example_parse (env_open ''s1'')
         (example_request ''POST'' None [''{}'']) started) = one_session
   \<and> servers one_session = Suc (servers started)
   \<and> trace one_session
       = trace started @ [Factory 0, Connect 0 0, ReadBody, HandleRequest 0 (Some 7)]
   \<and> filter (\<lambda>e. fst e = ''s1'') (transports one_session) = [(''s1'', 0)]
   \<and> valid_run example_parse [Exchange (example_request ''GET'' (Some ''s1'') []) env_quiet]
         one_session
   \<and> map_of (transports (run example_parse
         [Exchange (example_request ''GET'' (Some ''s1'') []) env_quiet] one_session)) ''s1''
       = Some 0
   \<and> servers (snd (requestListener example_parse env_quiet
         (example_request ''POST'' (Some ''s1'') [''{}''])
         (run example_parse [Exchange (example_request ''GET'' (Some ''s1'') []) env_quiet]
            one_session)))
       = servers (run example_parse
           [Exchange (example_request ''GET'' (Some ''s1'') []) env_quiet] one_session)
   \<and> handleMcpRequest example_parse env_quiet
         (example_request ''POST'' (Some ''s1'') [''{}'']) new_response
         (run example_parse [Exchange (example_request ''GET'' (Some ''s1'') []) env_quiet]
            one_session)
       = transport_handleRequest env_quiet 0 (Some 7) new_response
           ((run example_parse [Exchange (example_request ''GET'' (Some ''s1'') []) env_quiet]
               one_session)
              \<lparr>trace := trace (run example_parse
                   [Exchange (example_request ''GET'' (Some ''s1'') []) env_quiet] one_session)
                 @ [ReadBody]\<rparr>)\<close>
proof -
  let ?post = \<open>example_request ''POST'' None [''{}'']\<close>
  let ?later = \<open>[Exchange (example_request ''GET'' (Some ''s1'') []) env_quiet]\<close>
  let ?again = \<open>example_request ''POST'' (Some ''s1'') [''{}'']\<close>
  have v: \<open>valid_run example_parse [Start Bound]
      (createMcpHttpServer \<lparr>opt_port = None, opt_path = None\<rparr>)\<close>
    by (simp add: op_ok_def)
  have g: \<open>started = run example_parse [Start Bound]
      (createMcpHttpServer \<lparr>opt_port = None, opt_path = None\<rparr>)\<close>
    by (simp add: gateway_defs createMcpHttpServer_def started_def dec_3000 Let_def)
  have m: \<open>req_method ?post = ''POST''\<close> and pa: \<open>pathname ?post = path started\<close>
    by (simp_all add: example_request_def started_def)
  have f: \<open>find_transport (mcp_session_id ?post) started = None\<close>
    by (simp add: find_transport_def example_request_def)
  have pb: \<open>parseBody example_parse ?post = Inr (Some 7)\<close>
    by (simp add: parseBody_def example_request_def example_parse_def utf8_defs)
  have fi: \<open>fires (env_open ''s1'') = [SessionInitialized ''s1'']\<close>
    by (simp add: env_open_def)
  have ne: \<open>''s1'' \<noteq> []\<close> and fr: \<open>Some ''s1'' \<notin> set (map sessionId (heap started))\<close>
    by (simp_all add: started_def)
  have s: \<open>one_session = snd (requestListener example_parse (env_open ''s1'') ?post started)\<close>
    by (simp add: gateway_defs example_defs one_session_def started_def Let_def)
  have c: \<open>0 = length (heap started)\<close>
    by (simp add: started_def)
  have l: \<open>valid_run example_parse ?later one_session\<close>
    by (simp add: gateway_defs example_defs one_session_def op_ok_def forwarded_def)
  have r: \<open>map_of (transports (run example_parse ?later one_session)) ''s1'' = Some 0\<close>
    by (simp add: gateway_defs example_defs one_session_def Let_def)
  have h2: \<open>mcp_session_id ?again = Some ''s1''\<close> \<open>req_method ?again = ''POST''\<close>
    \<open>parseBody example_parse ?again = Inr (Some 7)\<close>
    by (simp_all add: parseBody_def example_request_def example_parse_def utf8_defs)
  have t: \<open>trace one_session
       = trace started @ [Factory 0, Connect 0 0, ReadBody, HandleRequest 0 (Some 7)]\<close>
    \<open>servers one_session = Suc (servers started)\<close>
    \<open>filter (\<lambda>e. fst e = ''s1'') (transports one_session) = [(''s1'', 0)]\<close>
    by (simp_all add: one_session_def started_def)
  have st: \<open>run example_parse [Start Bound] example_gateway = started\<close>
    using g by (simp add: example_gateway_def)
  have v': \<open>valid_run example_parse [Start Bound] example_gateway\<close>
    by (simp add: op_ok_def)
  from create_then_reuse [OF v g m pa f pb fi ne fr s c, where later = ?later
      and ?req2.0 = ?again and ?payload2.0 = \<open>Some 7\<close> and ?env2.0 = env_quiet
      and res = new_response] l r h2
  have \<open>servers (snd (requestListener example_parse env_quiet ?again
            (run example_parse ?later one_session)))
          = servers (run example_parse ?later one_session)
       \<and> handleMcpRequest example_parse env_quiet ?again new_response
            (run example_parse ?later one_session)
          = transport_handleRequest env_quiet 0 (Some 7) new_response
              ((run example_parse ?later one_session)
                 \<lparr>trace := trace (run example_parse ?later one_session) @ [ReadBody]\<rparr>)\<close>
    by (simp only: simp_thms)
  then show ?thesis
    using v' st f pb s [symmetric] t l r by (simp only: simp_thms)
qed


text \<open>
  The claim as stated covers every later request that carries \<open>X\<close>. Once the session has
  been closed, here by a DELETE, \<open>X\<close> is no longer a key of the registry, and a POST that
  still carries \<open>X\<close> calls the factory again and is handed to a new channel.
\<close>

theorem create_then_reuse_counterexample:
  \<open>run example_parse example_run example_gateway = one_session
   \<and> map_of (transports one_session) ''s1'' = Some 0
   \<and> snd (requestListener example_parse env_close
         (example_request ''DELETE'' (Some ''s1'') []) one_session) = closed_session
   \<and> servers closed_session = 1
   \<and> servers (snd (requestListener example_parse (env_open ''s9'')
         (example_request ''POST'' (Some ''s1'') [''{}'']) closed_session)) = 2
   \<and> trace (snd (requestListener example_parse (env_open ''s9'')
         (example_request ''POST'' (Some ''s1'') [''{}'']) closed_session))
       = trace closed_session @ [Factory 1, Connect 1 1, ReadBody, HandleRequest 1 (Some 7)]\<close>
proof -
  have \<open>snd (requestListener example_parse env_close
         (example_request ''DELETE'' (Some ''s1'') []) one_session) = closed_session\<close>
    by (simp add: gateway_defs example_defs one_session_def closed_session_def Let_def)
  moreover have \<open>servers (snd (requestListener example_parse (env_open ''s9'')
         (example_request ''POST'' (Some ''s1'') [''{}'']) closed_session)) = 2\<close>
    by (simp add: gateway_defs example_defs closed_session_def Let_def)
  moreover have \<open>trace (snd (requestListener example_parse (env_open ''s9'')
         (example_request ''POST'' (Some ''s1'') [''{}'']) closed_session))
       = trace closed_session @ [Factory 1, Connect 1 1, ReadBody, HandleRequest 1 (Some 7)]\<close>
    by (simp add: gateway_defs example_defs closed_session_def Let_def)
  ultimately show ?thesis
    using example_run_state by (simp add: one_session_def closed_session_def)
qed

section \<open>A session id that is not registered\<close>

lemma parseBody_header: "parseBody JSON_parse (req\<lparr>mcp_session_id := x\<rparr>) = parseBody JSON_parse req"
  by (simp add: parseBody_def collected_def)

lemma find_transport_unknown:
  assumes "map_of (transports g) sid = None"
  shows "find_transport (Some sid) g = None"
  using assms by (simp add: find_transport_def)

text \<open>
  Claim C3. A POST whose session-id header carries a value that is not a key of the
  registry is handled exactly as the same POST without the header: the results of the
  dispatcher, and of the listener's callback, are equal. When the body can be read, that
  result is the creation branch: a new engine instance from the factory, a new channel
  connected to it, and the exchange handed to that new channel; the gateway itself
  writes no error response.
\<close>

theorem unknown_id_creates_session:
  assumes \<open>req_method req = ''POST''\<close> and \<open>map_of (transports g) sid = None\<close>
  shows \<open>handleMcpRequest JSON_parse env (req\<lparr>mcp_session_id := Some sid\<rparr>) res g
           = handleMcpRequest JSON_parse env (req\<lparr>mcp_session_id := None\<rparr>) res g
       \<and> requestListener JSON_parse env (req\<lparr>mcp_session_id := Some sid\<rparr>) g
           = requestListener JSON_parse env (req\<lparr>mcp_session_id := None\<rparr>) g
       \<and> (parseBody JSON_parse req = Inr payload \<longrightarrow>
            handleMcpRequest JSON_parse env (req\<lparr>mcp_session_id := Some sid\<rparr>) res g
              = transport_handleRequest env (length (heap g)) payload res
                  (g\<lparr>servers := Suc (servers g),
                     heap := heap g @ [\<lparr>sessionId = None, closed = False, server = servers g\<rparr>],
                     trace := trace g @ [Factory (servers g),
                                         Connect (servers g) (length (heap g)), ReadBody]\<rparr>))\<close>
proof -
  have f: \<open>find_transport (Some sid) g = None\<close>
    using assms(2) by (rule find_transport_unknown)
  have n: \<open>find_transport None g = None\<close>
    by (simp add: find_transport_def)
  have same: \<open>handleMcpRequest JSON_parse env (req\<lparr>mcp_session_id := Some sid\<rparr>) r g
           = handleMcpRequest JSON_parse env (req\<lparr>mcp_session_id := None\<rparr>) r g\<close> for r
    using assms(1) f n by (simp add: handleMcpRequest_def parseBody_header)
  have listener: \<open>requestListener JSON_parse env (req\<lparr>mcp_session_id := Some sid\<rparr>) g
           = requestListener JSON_parse env (req\<lparr>mcp_session_id := None\<rparr>) g\<close>
    by (simp add: requestListener_def same)
  have created: \<open>handleMcpRequest JSON_parse env (req\<lparr>mcp_session_id := Some sid\<rparr>) res g
              = transport_handleRequest env (length (heap g)) payload res
                  (g\<lparr>servers := Suc (servers g),
                     heap := heap g @ [\<lparr>sessionId = None, closed = False, server = servers g\<rparr>],
                     trace := trace g @ [Factory (servers g),
                                         Connect (servers g) (length (heap g)), ReadBody]\<rparr>)\<close>
    if \<open>parseBody JSON_parse req = Inr payload\<close>
    using assms(1) f that
    by (simp add: handleMcpRequest_def parseBody_header createSession_def Let_def)
  show ?thesis
    using same listener created by simp
qed

theorem unknown_id_creates_session_witness:
  \<open>req_method (example_request ''POST'' None [''{}'']) = ''POST''
   \<and> map_of (transports one_session) ''s2'' = None
   \<and> parseBody example_parse (example_request ''POST'' None [''{}'']) = Inr (Some 7)
   \<and> requestListener example_parse (env_open ''s3'')
        (example_request ''POST'' (Some ''s2'') [''{}'']) one_session
       = requestListener example_parse (env_open ''s3'')
        (example_request ''POST'' None [''{}'']) one_session
   \<and> handleMcpRequest example_parse (env_open ''s3'')
        (example_request ''POST'' (Some ''s2'') [''{}'']) new_response one_session
       = (Inr (),
          \<lparr>statusCode = 200, contentType = None, headersSent = True, body = ''ok'',
            ended = False\<rparr>,
          one_session\<lparr>transports := [(''s1'', 0), (''s3'', 1)],
            heap := [\<lparr>sessionId = Some ''s1'', closed = False, server = 0\<rparr>,
                     \<lparr>sessionId = Some ''s3'', closed = False, server = 1\<rparr>],
            servers := 2,
            trace := trace one_session
              @ [Factory 1, Connect 1 1, ReadBody, HandleRequest 1 (Some 7)],
            console := console one_session @ [''Session initialized: s3'']\<rparr>)\<close>
  using unknown_id_creates_session [of "example_request ''POST'' None [''{}'']" one_session
      "''s2''" example_parse "env_open ''s3''" new_response "Some 7"]
  by (simp add: example_defs one_session_def gateway_defs Let_def)

section \<open>Stopping\<close>

text \<open>
  Claim C4, as the code has it. In a state that a run has reached, \<^verbatim>\<open>stop\<close> calls
  \<^verbatim>\<open>close\<close> on every channel of the registry, one after the other in registry order and
  each awaited, and only then calls \<^verbatim>\<open>close\<close> on the listener; afterwards the registry is
  empty and every channel that was registered has fired its closed callback. The promise
  resolves when the listener's \<^verbatim>\<open>close\<close> has been called: a listener that was listening
  has stopped accepting connections but has not yet finished closing. With an empty
  registry \<^verbatim>\<open>stop\<close> only logs, calls the listener's \<^verbatim>\<open>close\<close> and resolves.
\<close>

theorem stop_drains:
  assumes \<open>valid_run JSON_parse ops (createMcpHttpServer options)\<close>
    and \<open>g = run JSON_parse ops (createMcpHttpServer options)\<close>
  shows \<open>fst (stop g) = Resolved
       \<and> trace (snd (stop g)) = trace g @ map CloseCall (map snd (transports g)) @ [ServerClose]
       \<and> transports (snd (stop g)) = []
       \<and> (\<forall>t \<in> set (map snd (transports g)). closed (heap (snd (stop g)) ! t))
       \<and> listener (snd (stop g)) = (if listener g = Listening then Closing else listener g)
       \<and> (transports g = [] \<longrightarrow>
            snd (stop g) = g\<lparr>console := console g @ [''Shutting down...''],
                             trace := trace g @ [ServerClose],
                             listener := (if listener g = Listening then Closing else listener g)\<rparr>)\<close>
proof -
  let ?g1 = \<open>g\<lparr>console := console g @ [''Shutting down...'']\<rparr>\<close>
  let ?g2 = \<open>close_all (map fst (transports g)) ?g1\<close>
  have c: \<open>consistent g\<close>
    using assms by (simp add: consistent_reachable)
  then have c1: \<open>consistent ?g1\<close> by (simp add: consistent_console)
  have drained: \<open>transports ?g2 = []\<close>
    \<open>trace ?g2 = trace g @ map CloseCall (map snd (transports g))\<close>
    \<open>listener ?g2 = listener g\<close>
    using close_all_drains [OF c1, of \<open>transports g\<close>] by simp_all
  have s: \<open>snd (stop g) = httpServer_close ?g2\<close>
    by (simp add: stop_def Let_def)
  have \<open>closed (heap (snd (stop g)) ! t)\<close> if \<open>t \<in> set (map snd (transports g))\<close> for t
  proof -
    from that obtain k where \<open>(k, t) \<in> set (transports g)\<close> by auto
    moreover have \<open>distinct (map fst (transports g))\<close>
      using c by (simp add: consistent_def consistent_heap_def)
    ultimately have \<open>map_of (transports g) k = Some t\<close> by simp
    moreover have \<open>keeps g (snd (stop g))\<close> by (rule keeps_stop)
    moreover have \<open>consistent (snd (stop g))\<close> using c by (rule consistent_stop)
    moreover have \<open>transports (snd (stop g)) = []\<close>
      using drained(1) by (simp add: s httpServer_close_def)
    ultimately show ?thesis using c closed_after_drain by blast
  qed
  moreover have \<open>snd (stop g) = g\<lparr>console := console g @ [''Shutting down...''],
                             trace := trace g @ [ServerClose],
                             listener := (if listener g = Listening then Closing else listener g)\<rparr>\<close>
    if \<open>transports g = []\<close>
    using that by (simp add: stop_def Let_def httpServer_close_def)
  ultimately show ?thesis
    using drained by (simp add: s httpServer_close_def stop_def Let_def)
qed

theorem stop_drains_witness:
  \<open>valid_run example_parse example_run example_gateway
   \<and> fst (stop one_session) = Resolved
   \<and> trace (snd (stop one_session)) = trace one_session @ [CloseCall 0, ServerClose]
   \<and> transports (snd (stop one_session)) = []
   \<and> closed (heap (snd (stop one_session)) ! 0)
   \<and> listener (snd (stop one_session)) = Closing
   \<and> transports example_gateway = []
   \<and> fst (stop example_gateway) = Resolved
   \<and> snd (stop example_gateway)
       = example_gateway\<lparr>console := [''Shutting down...''], trace := [ServerClose]\<rparr>\<close>
proof -
  have v0: \<open>valid_run example_parse [] (createMcpHttpServer \<lparr>opt_port = None, opt_path = None\<rparr>)\<close>
    by simp
  have g0: \<open>example_gateway
      = run example_parse [] (createMcpHttpServer \<lparr>opt_port = None, opt_path = None\<rparr>)\<close>
    by (simp add: example_gateway_def)
  have v1: \<open>valid_run example_parse example_run
      (createMcpHttpServer \<lparr>opt_port = None, opt_path = None\<rparr>)\<close>
    using example_run_valid by (simp add: example_gateway_def)
  have g1: \<open>one_session
      = run example_parse example_run (createMcpHttpServer \<lparr>opt_port = None, opt_path = None\<rparr>)\<close>
    using example_run_state by (simp add: example_gateway_def)
  have r0: \<open>transports example_gateway = []\<close> \<open>listener example_gateway = Idle\<close>
    \<open>console example_gateway = []\<close> \<open>trace example_gateway = []\<close>
    by (simp_all add: example_gateway_def createMcpHttpServer_def)
  have r1: \<open>transports one_session = [(''s1'', 0)]\<close> \<open>listener one_session = Listening\<close>
    by (simp_all add: one_session_def)
  show ?thesis
    using stop_drains [OF v0 g0] stop_drains [OF v1 g1] example_run_valid
    by (simp add: r0 r1)
qed


text \<open>
  The claim as stated asks that the promise resolve only once the listener has finished
  closing. With one session open on a listening gateway the promise is resolved while the
  listener is still closing.
\<close>

theorem stop_drains_counterexample:
  \<open>fst (stop one_session) = Resolved \<and> listener (snd (stop one_session)) = Closing
   \<and> listener (snd (stop one_session)) \<noteq> Closed\<close>
  by (simp add: gateway_defs one_session_def Let_def)

section \<open>Starting\<close>

text \<open>
  Claim C5, as the code has it. The promise of \<^verbatim>\<open>start\<close> is resolved exactly when
  \<^verbatim>\<open>listen\<close> has bound the port, and then the listener is listening. When the port is
  unavailable, which \<^verbatim>\<open>listen\<close> reports through the listener's \<^verbatim>\<open>error\<close> event, the
  promise stays pending and the listener is as before. The promise is rejected only when
  \<^verbatim>\<open>listen\<close> itself throws.
\<close>

theorem start_settles:
  \<open>((fst (start outcome g) = Resolved) = (outcome = Bound))
   \<and> (outcome = Bound \<longrightarrow> listener (snd (start outcome g)) = Listening)
   \<and> (outcome = ErrorEvent \<longrightarrow>
        fst (start outcome g) = Pending \<and> listener (snd (start outcome g)) = listener g)
   \<and> ((fst (start outcome g) = Rejected) = (outcome = Throws))\<close>
  by (cases outcome) (simp_all add: start_def Let_def)

theorem start_settles_witness:
  \<open>fst (start Bound example_gateway) = Resolved
   \<and> listener (snd (start Bound example_gateway)) = Listening
   \<and> fst (start ErrorEvent example_gateway) = Pending
   \<and> listener (snd (start ErrorEvent example_gateway)) = listener example_gateway
   \<and> fst (start Throws example_gateway) = Rejected\<close>
  using start_settles [of Bound example_gateway] start_settles [of ErrorEvent example_gateway]
    start_settles [of Throws example_gateway]
  by simp


text \<open>
  The claim as stated asks that the promise fail when the port is unavailable. It does
  not: it is never settled.
\<close>

theorem start_settles_counterexample:
  \<open>fst (start ErrorEvent example_gateway) = Pending
   \<and> fst (start ErrorEvent example_gateway) \<noteq> Rejected\<close>
  by (simp add: start_def Let_def)


section \<open>Body collection\<close>

lemma foldl_append_decodings:
  "foldl (\<lambda>body chunk. body @ f chunk) acc cs = acc @ concat (map f cs)"
  by (induction cs arbitrary: acc) simp_all

lemma collected_concat: "collected req = concat (map toString (chunks req))"
  by (simp add: collected_def foldl_append_decodings)

lemma decode_ascii:
  assumes "list_all (\<lambda>b. b < 0x80) bs"
  shows "decode_from idle bs = bs"
  using assms by (induction bs) (simp_all add: step_def lead_def idle_def)

lemma toString_ascii:
  assumes "list_all (\<lambda>c. (of_char c :: nat) < 0x80) buffer"
  shows "toString buffer = map of_char buffer"
  using assms by (simp add: toString_def decode_ascii list_all_iff)

lemma collected_ascii:
  assumes "list_all (\<lambda>c. (of_char c :: nat) < 0x80) (concat (chunks req))"
  shows "collected req = map of_char (concat (chunks req))"
    and "collected req = toString (concat (chunks req))"
proof -
  have each: "toString chunk = map of_char chunk" if "chunk \<in> set (chunks req)" for chunk
    using that assms by (intro toString_ascii) (auto simp add: list_all_iff)
  have "map toString (chunks req) = map (map of_char) (chunks req)"
    by (rule map_cong [OF refl]) (rule each)
  then show m: "collected req = map of_char (concat (chunks req))"
    by (simp only: collected_concat map_concat)
  have "toString (concat (chunks req)) = map of_char (concat (chunks req))"
    using assms by (rule toString_ascii)
  with m show "collected req = toString (concat (chunks req))"
    by (simp only:)
qed

text \<open>
  Claim C6 asks, for every request stream, that a non-empty body holding valid structured
  content reach the channel unchanged. It does not when a character of several bytes is
  cut by the boundary between two \<^verbatim>\<open>data\<close> events. The body sent is the JSON text of the
  string U+00E9. Arriving in one event it is decoded as sent, and the channel is handed
  the string U+00E9. Arriving in two events, the first ending with the byte C3 and the
  second starting with the byte A9, each event is decoded on its own (line 28): the
  collected text holds two U+FFFD between the quotation marks, it still parses, and the
  channel is handed a string of two replacement characters.
\<close>

theorem split_character_corrupted:
  \<open>concat [[CHR 0x22, CHR 0xC3], [CHR 0xA9, CHR 0x22]] = e_acute_body
   \<and> toString e_acute_body = [0x22, 0xE9, 0x22]
   \<and> quoted_parse (toString e_acute_body) = Some [0xE9]
   \<and> collected (example_request ''POST'' None [e_acute_body]) = [0x22, 0xE9, 0x22]
   \<and> payloads (trace (snd (requestListener quoted_parse env_quiet
         (example_request ''POST'' None [e_acute_body]) text_gateway))) = [Some [0xE9]]
   \<and> collected (example_request ''POST'' None [[CHR 0x22, CHR 0xC3], [CHR 0xA9, CHR 0x22]])
       = [0x22, 0xFFFD, 0xFFFD, 0x22]
   \<and> parseBody quoted_parse
         (example_request ''POST'' None [[CHR 0x22, CHR 0xC3], [CHR 0xA9, CHR 0x22]])
       = Inr (Some [0xFFFD, 0xFFFD])
   \<and> payloads (trace (snd (requestListener quoted_parse env_quiet
         (example_request ''POST'' None [[CHR 0x22, CHR 0xC3], [CHR 0xA9, CHR 0x22]])
         text_gateway))) = [Some [0xFFFD, 0xFFFD]]\<close>
proof -
  have whole: \<open>collected (example_request ''POST'' None [e_acute_body]) = [0x22, 0xE9, 0x22]\<close>
    by (simp add: example_request_def e_acute_body_def utf8_defs)
  have split: \<open>collected (example_request ''POST'' None
        [[CHR 0x22, CHR 0xC3], [CHR 0xA9, CHR 0x22]]) = [0x22, 0xFFFD, 0xFFFD, 0x22]\<close>
    by (simp add: example_request_def utf8_defs)
  have p1: \<open>quoted_parse [0x22, 0xE9, 0x22] = Some [0xE9]\<close>
    and p2: \<open>quoted_parse [0x22, 0xFFFD, 0xFFFD, 0x22] = Some [0xFFFD, 0xFFFD]\<close>
    by (simp_all add: quoted_parse_def)
  have m: \<open>req_method (example_request ''POST'' None cs) = ''POST''\<close>
    and pa: \<open>pathname (example_request ''POST'' None cs) = path text_gateway\<close>
    and se: \<open>\<not> stream_error (example_request ''POST'' None cs)\<close> for cs
    by (simp_all add: example_request_def text_gateway_def createMcpHttpServer_def)
  have t0: \<open>payloads (trace text_gateway) = []\<close>
    by (simp add: text_gateway_def createMcpHttpServer_def payloads_simps)
  have b1: \<open>parseBody quoted_parse (example_request ''POST'' None [e_acute_body])
      = Inr (Some [0xE9])\<close>
    using se by (simp add: parseBody_def whole p1)
  have b2: \<open>parseBody quoted_parse (example_request ''POST'' None
        [[CHR 0x22, CHR 0xC3], [CHR 0xA9, CHR 0x22]]) = Inr (Some [0xFFFD, 0xFFFD])\<close>
    using se by (simp add: parseBody_def split p2)
  have deliver: \<open>payloads (trace (snd (requestListener quoted_parse env_quiet
         (example_request ''POST'' None cs) text_gateway)))
       = (case parseBody quoted_parse (example_request ''POST'' None cs) of
            Inl e \<Rightarrow> [] | Inr payload \<Rightarrow> [payload])\<close> for cs
    using payloads_POST [OF m, of quoted_parse env_quiet cs new_response text_gateway] pa [of cs]
    by (simp add: requestListener_state Let_def t0 split: sum.splits)
  have w: \<open>toString e_acute_body = [0x22, 0xE9, 0x22]\<close>
    by (simp add: e_acute_body_def utf8_defs)
  have c: \<open>concat [[CHR 0x22, CHR 0xC3], [CHR 0xA9, CHR 0x22]] = e_acute_body\<close>
    by (simp add: e_acute_body_def)
  have d1: \<open>payloads (trace (snd (requestListener quoted_parse env_quiet
         (example_request ''POST'' None [e_acute_body]) text_gateway))) = [Some [0xE9]]\<close>
    by (simp add: deliver b1)
  have d2: \<open>payloads (trace (snd (requestListener quoted_parse env_quiet
         (example_request ''POST'' None [[CHR 0x22, CHR 0xC3], [CHR 0xA9, CHR 0x22]])
         text_gateway))) = [Some [0xFFFD, 0xFFFD]]\<close>
    by (simp add: deliver b2)
  show ?thesis
    by (simp only: c w p1 whole split b2 d1 d2 simp_thms)
qed

text \<open>
  What the body collector does for every stream that ends normally, on a POST to the
  configured path. When the collected text is empty, \<^verbatim>\<open>parseBody\<close> yields "no payload"
  whatever the parser would do, and the channel is handed no payload. When the collected
  text is not empty and does not parse, \<^verbatim>\<open>parseBody\<close> fails, the exchange is answered 500
  with the internal error envelope and no channel is handed anything. When it parses to
  \<open>v\<close>, the channel is handed exactly \<open>v\<close>.
\<close>

theorem body_collection:
  assumes \<open>\<not> stream_error req\<close> and \<open>req_method req = ''POST''\<close>
    and \<open>pathname req = path g\<close>
  shows \<open>(collected req = [] \<longrightarrow>
            parseBody JSON_parse req = Inr None
            \<and> parseBody other_parse req = Inr None
            \<and> payloads (trace (snd (requestListener JSON_parse env req g)))
                = payloads (trace g) @ [None])
       \<and> (collected req \<noteq> [] \<longrightarrow> JSON_parse (collected req) = None \<longrightarrow>
            parseBody JSON_parse req = Inl SyntaxError
            \<and> fst (requestListener JSON_parse env req g) =
                \<lparr>statusCode = 500, contentType = Some ''application/json'', headersSent = True,
                  body = ''{"jsonrpc":"2.0","error":{"code":-32603,"message":"Internal server error"},"id":null}'',
                  ended = True\<rparr>
            \<and> payloads (trace (snd (requestListener JSON_parse env req g)))
                = payloads (trace g))
       \<and> (collected req \<noteq> [] \<longrightarrow> JSON_parse (collected req) = Some v \<longrightarrow>
            parseBody JSON_parse req = Inr (Some v)
            \<and> payloads (trace (snd (requestListener JSON_parse env req g)))
                = payloads (trace g) @ [Some v])\<close>
proof -
  have tr: \<open>payloads (trace (snd (requestListener JSON_parse env req g))) =
      payloads (trace g) @ (case parseBody JSON_parse req of Inl e \<Rightarrow> [] | Inr payload \<Rightarrow> [payload])\<close>
    using payloads_POST [OF assms(2), of JSON_parse env new_response g] assms(3)
    by (simp add: requestListener_state Let_def split: sum.splits)
  have fail: \<open>fst (requestListener JSON_parse env req g) =
        \<lparr>statusCode = 500, contentType = Some ''application/json'', headersSent = True,
          body = ''{"jsonrpc":"2.0","error":{"code":-32603,"message":"Internal server error"},"id":null}'',
          ended = True\<rparr>\<close>
    if \<open>parseBody JSON_parse req = Inl SyntaxError\<close>
    using response_POST_failure [OF assms(2) that, of env new_response g] assms(3)
    by (cases \<open>handleMcpRequest JSON_parse env req new_response g\<close>)
      (simp add: requestListener_def sendJson_def new_response_def stringify_internal_error)
  have empty: \<open>parseBody JSON_parse req = Inr None\<close>
    and empty': \<open>parseBody other_parse req = Inr None\<close> if \<open>collected req = []\<close>
    using that assms(1) by (simp_all add: parseBody_def)
  have bad: \<open>parseBody JSON_parse req = Inl SyntaxError\<close>
    if \<open>collected req \<noteq> []\<close> and \<open>JSON_parse (collected req) = None\<close>
    using that assms(1) by (simp add: parseBody_def)
  have good: \<open>parseBody JSON_parse req = Inr (Some v)\<close>
    if \<open>collected req \<noteq> []\<close> and \<open>JSON_parse (collected req) = Some v\<close>
    using that assms(1) by (simp add: parseBody_def)
  show ?thesis
    using tr fail empty empty' bad good by simp
qed

theorem body_collection_witness:
  \<open>\<not> stream_error (example_request ''POST'' None [])
   \<and> collected (example_request ''POST'' None []) = []
   \<and> parseBody example_parse (example_request ''POST'' None []) = Inr None
   \<and> payloads (trace (snd (requestListener example_parse env_quiet
         (example_request ''POST'' None []) example_gateway))) = [None]
   \<and> collected (example_request ''POST'' None [''oo'', ''ps'']) \<noteq> []
   \<and> example_parse (collected (example_request ''POST'' None [''oo'', ''ps''])) = None
   \<and> parseBody example_parse (example_request ''POST'' None [''oo'', ''ps'']) = Inl SyntaxError
   \<and> fst (requestListener example_parse env_quiet
         (example_request ''POST'' None [''oo'', ''ps'']) example_gateway) =
       \<lparr>statusCode = 500, contentType = Some ''application/json'', headersSent = True,
         body = ''{"jsonrpc":"2.0","error":{"code":-32603,"message":"Internal server error"},"id":null}'',
         ended = True\<rparr>
   \<and> payloads (trace (snd (requestListener example_parse env_quiet
         (example_request ''POST'' None [''oo'', ''ps'']) example_gateway))) = []
   \<and> collected (example_request ''POST'' None [''{'', ''}'']) \<noteq> []
   \<and> example_parse (collected (example_request ''POST'' None [''{'', ''}''])) = Some 7
   \<and> parseBody example_parse (example_request ''POST'' None [''{'', ''}'']) = Inr (Some 7)
   \<and> payloads (trace (snd (requestListener example_parse env_quiet
         (example_request ''POST'' None [''{'', ''}'']) example_gateway))) = [Some 7]\<close>
  using
    body_collection [of "example_request ''POST'' None []" example_gateway example_parse
      "\<lambda>s. None :: nat option" env_quiet 7]
    body_collection [of "example_request ''POST'' None [''oo'', ''ps'']" example_gateway
      example_parse "\<lambda>s. None :: nat option" env_quiet 7]
    body_collection [of "example_request ''POST'' None [''{'', ''}'']" example_gateway
      example_parse "\<lambda>s. None :: nat option" env_quiet 7]
  by (simp add: example_defs utf8_defs payloads_simps)

text \<open>
  When every byte of the body is below 80 (hexadecimal), the collected text is the
  decoding of the whole body, however the bytes are spread over \<^verbatim>\<open>data\<close> events, and
  the channel is handed what the parser returns for it.
\<close>

theorem ascii_body_unchanged:
  assumes \<open>\<not> stream_error req\<close> and \<open>req_method req = ''POST''\<close>
    and \<open>pathname req = path g\<close>
    and \<open>list_all (\<lambda>c. (of_char c :: nat) < 0x80) (concat (chunks req))\<close>
    and \<open>concat (chunks req) \<noteq> []\<close>
    and \<open>JSON_parse (toString (concat (chunks req))) = Some v\<close>
  shows \<open>collected req = toString (concat (chunks req))
       \<and> parseBody JSON_parse req = Inr (Some v)
       \<and> payloads (trace (snd (requestListener JSON_parse env req g)))
           = payloads (trace g) @ [Some v]\<close>
proof -
  have c: \<open>collected req = toString (concat (chunks req))\<close>
    and m: \<open>collected req = map of_char (concat (chunks req))\<close>
    by (rule collected_ascii(2) [OF assms(4)], rule collected_ascii(1) [OF assms(4)])
  from m assms(5) have \<open>collected req \<noteq> []\<close> by simp
  with assms(1,6) c have p: \<open>parseBody JSON_parse req = Inr (Some v)\<close>
    by (simp add: parseBody_def)
  have \<open>payloads (trace (snd (requestListener JSON_parse env req g))) =
      payloads (trace g) @ (case parseBody JSON_parse req of Inl e \<Rightarrow> [] | Inr payload \<Rightarrow> [payload])\<close>
    using payloads_POST [OF assms(2), of JSON_parse env new_response g] assms(3)
    by (simp add: requestListener_state Let_def split: sum.splits)
  with c p show ?thesis by simp
qed

theorem ascii_body_unchanged_witness:
  \<open>\<not> stream_error (example_request ''POST'' None [''{'', ''}''])
   \<and> list_all (\<lambda>c. (of_char c :: nat) < 0x80)
        (concat (chunks (example_request ''POST'' None [''{'', ''}''])))
   \<and> concat (chunks (example_request ''POST'' None [''{'', ''}''])) \<noteq> []
   \<and> example_parse (toString (concat (chunks (example_request ''POST'' None [''{'', ''}''])))) = Some 7
   \<and> collected (example_request ''POST'' None [''{'', ''}''])
       = toString (concat (chunks (example_request ''POST'' None [''{'', ''}''])))
   \<and> payloads (trace (snd (requestListener example_parse env_quiet
         (example_request ''POST'' None [''{'', ''}'']) example_gateway))) = [Some 7]\<close>
  using ascii_body_unchanged [of "example_request ''POST'' None [''{'', ''}'']" example_gateway
      example_parse 7 env_quiet]
  by (simp add: example_defs utf8_defs payloads_simps)

section \<open>Failures while handling an exchange\<close>

lemma response_untouched:
  assumes "handleMcpRequest JSON_parse env req res0 g = (r, res, g')" and "\<not> headersSent res"
  shows "res = res0"
  using assms
  by (auto simp add: handleMcpRequest_def transport_handleRequest_def sendJson_def Let_def
      split: if_splits option.splits sum.splits prod.splits)

text \<open>
  Claim C7. When handling an exchange on the configured path fails, for whatever reason,
  the failure is logged; if no response headers have been sent the gateway answers 500
  with the JSON-RPC envelope of code -32603, and if headers have been sent it leaves the
  response as the channel left it.
\<close>

theorem failure_answered_500:
  assumes \<open>pathname req = path g\<close>
    and \<open>handleMcpRequest JSON_parse env req new_response g = (Inl e, res, g')\<close>
  shows \<open>requestListener JSON_parse env req g =
    (if headersSent res then res
     else \<lparr>statusCode = 500, contentType = Some ''application/json'', headersSent = True,
       body = ''{"jsonrpc":"2.0","error":{"code":-32603,"message":"Internal server error"},"id":null}'',
       ended = True\<rparr>,
     g'\<lparr>console := console g' @ [''Error handling request:'']\<rparr>)\<close>
proof (cases \<open>headersSent res\<close>)
  case True
  with assms show ?thesis by (simp add: requestListener_def)
next
  case False
  with assms(2) have \<open>res = new_response\<close> by (rule response_untouched)
  with False assms show ?thesis
    by (simp add: requestListener_def sendJson_def new_response_def stringify_internal_error)
qed


theorem failure_answered_500_witness:
  \<open>pathname (example_request ''POST'' None [''oops'']) = path example_gateway
   \<and> handleMcpRequest example_parse env_quiet (example_request ''POST'' None [''oops''])
         new_response example_gateway
       = (Inl SyntaxError, new_response, orphaned)
   \<and> requestListener example_parse env_quiet (example_request ''POST'' None [''oops''])
         example_gateway
       = (\<lparr>statusCode = 500, contentType = Some ''application/json'', headersSent = True,
           body = ''{"jsonrpc":"2.0","error":{"code":-32603,"message":"Internal server error"},"id":null}'',
           ended = True\<rparr>,
          orphaned\<lparr>console := [''Error handling request:'']\<rparr>)
   \<and> pathname (example_request ''GET'' (Some ''s1'') []) = path one_session
   \<and> handleMcpRequest example_parse env_broken (example_request ''GET'' (Some ''s1'') [])
         new_response one_session
       = (Inl HandleError,
          \<lparr>statusCode = 200, contentType = None, headersSent = True, body = ''partial'',
            ended = False\<rparr>,
          one_session\<lparr>trace := trace one_session @ [HandleRequest 0 None]\<rparr>)
   \<and> requestListener example_parse env_broken (example_request ''GET'' (Some ''s1'') [])
         one_session
       = (\<lparr>statusCode = 200, contentType = None, headersSent = True, body = ''partial'',
            ended = False\<rparr>,
          one_session\<lparr>trace := trace one_session @ [HandleRequest 0 None],
            console := console one_session @ [''Error handling request:'']\<rparr>)\<close>
proof -
  have a: \<open>pathname (example_request ''POST'' None [''oops'']) = path example_gateway\<close>
    by (simp add: example_defs)
  have b: \<open>handleMcpRequest example_parse env_quiet (example_request ''POST'' None [''oops''])
         new_response example_gateway
       = (Inl SyntaxError, new_response, orphaned)\<close>
    by (simp add: gateway_defs example_defs orphaned_def Let_def)
  have c: \<open>pathname (example_request ''GET'' (Some ''s1'') []) = path one_session\<close>
    by (simp add: example_defs one_session_def)
  have d: \<open>handleMcpRequest example_parse env_broken (example_request ''GET'' (Some ''s1'') [])
         new_response one_session
       = (Inl HandleError,
          \<lparr>statusCode = 200, contentType = None, headersSent = True, body = ''partial'',
            ended = False\<rparr>,
          one_session\<lparr>trace := trace one_session @ [HandleRequest 0 None]\<rparr>)\<close>
    by (simp add: gateway_defs example_defs one_session_def Let_def)
  show ?thesis
    using a b c d failure_answered_500 [OF a b] failure_answered_500 [OF c d]
    by (simp add: new_response_def orphaned_def)
qed

section \<open>Rejections by the dispatcher\<close>

text \<open>
  Claim C8. A GET or DELETE request to the configured path with no session-id header, or
  with a header value that is not a key of the registry, is answered 400 with the body
  given below, the same in both cases, and the state of the gateway (registry, channels,
  calls made on collaborators, console) is left as it was.
\<close>

theorem missing_session_400:
  assumes \<open>pathname req = path g\<close>
    and \<open>req_method req = ''GET'' \<or> req_method req = ''DELETE''\<close>
    and \<open>mcp_session_id req = None
         \<or> (\<exists>s. mcp_session_id req = Some s \<and> map_of (transports g) s = None)\<close>
  shows \<open>requestListener JSON_parse env req g =
    (\<lparr>statusCode = 400, contentType = Some ''application/json'', headersSent = True,
      body = ''{"jsonrpc":"2.0","error":{"code":-32000,"message":"Invalid or missing session ID"},"id":null}'',
      ended = True\<rparr>, g)\<close>
proof -
  have \<open>find_transport (mcp_session_id req) g = None\<close>
    using assms(3) by (auto simp add: find_transport_def)
  moreover have \<open>req_method req \<noteq> ''POST''\<close>
    using assms(2) by auto
  ultimately show ?thesis
    using assms(1,2)
    by (simp add: requestListener_def handleMcpRequest_def sendJson_def new_response_def
        stringify_invalid_session)
qed

theorem missing_session_400_witness:
  \<open>requestListener example_parse env_close (example_request ''GET'' None []) one_session =
    (\<lparr>statusCode = 400, contentType = Some ''application/json'', headersSent = True,
      body = ''{"jsonrpc":"2.0","error":{"code":-32000,"message":"Invalid or missing session ID"},"id":null}'',
      ended = True\<rparr>, one_session)
   \<and> requestListener example_parse env_close (example_request ''DELETE'' (Some ''s2'') []) one_session =
    (\<lparr>statusCode = 400, contentType = Some ''application/json'', headersSent = True,
      body = ''{"jsonrpc":"2.0","error":{"code":-32000,"message":"Invalid or missing session ID"},"id":null}'',
      ended = True\<rparr>, one_session)\<close>
  using missing_session_400 [of "example_request ''GET'' None []" one_session example_parse env_close]
    missing_session_400 [of "example_request ''DELETE'' (Some ''s2'') []" one_session example_parse env_close]
  by (simp add: example_request_def one_session_def)


text \<open>
  Claim C9. A request to the configured path whose verb is none of POST, GET and DELETE is
  answered 405 with the JSON-RPC error envelope, code -32000 and message "Method not
  allowed"; the state of the gateway (registry, channels, calls made, console) is left
  as it was.
\<close>

theorem unsupported_verb_405:
  assumes \<open>pathname req = path g\<close>
    and \<open>req_method req \<noteq> ''POST''\<close> and \<open>req_method req \<noteq> ''GET''\<close>
    and \<open>req_method req \<noteq> ''DELETE''\<close>
  shows \<open>requestListener JSON_parse env req g =
    (\<lparr>statusCode = 405, contentType = Some ''application/json'', headersSent = True,
      body = ''{"jsonrpc":"2.0","error":{"code":-32000,"message":"Method not allowed"},"id":null}'',
      ended = True\<rparr>, g)\<close>
  using assms
  by (simp add: requestListener_def handleMcpRequest_def sendJson_def new_response_def
      stringify_method_not_allowed)

theorem unsupported_verb_405_witness:
  \<open>requestListener (\<lambda>s. None) env_quiet (example_request ''PUT'' None []) example_gateway =
    (\<lparr>statusCode = 405, contentType = Some ''application/json'', headersSent = True,
      body = ''{"jsonrpc":"2.0","error":{"code":-32000,"message":"Method not allowed"},"id":null}'',
      ended = True\<rparr>, example_gateway)\<close>
  using unsupported_verb_405 [of "example_request ''PUT'' None []" example_gateway "\<lambda>s. None" env_quiet]
  by (simp add: example_request_def example_gateway_def createMcpHttpServer_def)

section \<open>What an unparseable POST leaves behind\<close>

text \<open>
  Claim C10. In a state \<open>g\<close> that a run has reached, a POST to the configured path with a
  non-empty body (the text collected from its chunks) that does not parse leaves the
  registry as it was and hands nothing to any channel. When it carried a registered session id, nothing is created. When it
  carried none (or one that is not registered), the factory has been called and the new
  engine instance connected to a new channel before the body was read; and in every
  state that any later run of the gateway reaches, that channel is registered under no
  id, \<^verbatim>\<open>close\<close> has never been called on it by the gateway, and it has been handed no
  exchange.
\<close>

theorem unparseable_post:
  assumes \<open>valid_run JSON_parse ops (createMcpHttpServer options)\<close>
    and \<open>g = run JSON_parse ops (createMcpHttpServer options)\<close>
    and \<open>req_method req = ''POST''\<close> and \<open>pathname req = path g\<close>
    and \<open>\<not> stream_error req\<close> and \<open>collected req \<noteq> []\<close>
    and \<open>JSON_parse (collected req) = None\<close>
    and \<open>g' = snd (requestListener JSON_parse env req g)\<close>
  shows \<open>transports g' = transports g
       \<and> payloads (trace g') = payloads (trace g)
       \<and> (find_transport (mcp_session_id req) g \<noteq> None \<longrightarrow>
            heap g' = heap g \<and> servers g' = servers g \<and> trace g' = trace g @ [ReadBody])
       \<and> (find_transport (mcp_session_id req) g = None \<longrightarrow>
            servers g' = Suc (servers g)
            \<and> heap g' = heap g @ [\<lparr>sessionId = None, closed = False, server = servers g\<rparr>]
            \<and> trace g' = trace g @ [Factory (servers g),
                                     Connect (servers g) (length (heap g)), ReadBody]
            \<and> (valid_run JSON_parse later g' \<longrightarrow>
                 map_of (transports (run JSON_parse later g')) k \<noteq> Some (length (heap g))
                 \<and> CloseCall (length (heap g)) \<notin> set (trace (run JSON_parse later g'))
                 \<and> HandleRequest (length (heap g)) p \<notin> set (trace (run JSON_parse later g'))))\<close>
proof -
  have consistent: \<open>consistent g\<close> and tr: \<open>trace_ok g\<close>
    using assms(1,2) by (simp_all add: consistent_reachable trace_ok_reachable)
  have parse: \<open>parseBody JSON_parse req = Inl SyntaxError\<close>
    using assms(5-7) by (rule unparseable)
  note state = unparseable_POST_state [OF assms(3,4) parse, of env, folded assms(8)]
  have ok: \<open>op_ok JSON_parse (Exchange req env) g\<close>
    using assms(3,4) parse by (simp add: op_ok_def forwarded_def)
  have cons': \<open>consistent g'\<close>
    using consistent ok unfolding assms(8) by (rule consistent_requestListener)
  have basic: \<open>transports g' = transports g\<close> \<open>payloads (trace g') = payloads (trace g)\<close>
    by (simp_all add: state payloads_append payloads_simps split: option.splits)
  have reuse: \<open>heap g' = heap g \<and> servers g' = servers g \<and> trace g' = trace g @ [ReadBody]\<close>
    if \<open>find_transport (mcp_session_id req) g \<noteq> None\<close>
    using that by (auto simp add: state)
  have create: \<open>servers g' = Suc (servers g)
            \<and> heap g' = heap g @ [\<lparr>sessionId = None, closed = False, server = servers g\<rparr>]
            \<and> trace g' = trace g @ [Factory (servers g),
                                     Connect (servers g) (length (heap g)), ReadBody]\<close>
    and orphan: \<open>untouched g' (length (heap g))\<close>
    if \<open>find_transport (mcp_session_id req) g = None\<close>
    using that fresh_channel_untouched [OF tr] by (simp_all add: state)
  have later: \<open>map_of (transports (run JSON_parse later g')) k \<noteq> Some (length (heap g))
                 \<and> CloseCall (length (heap g)) \<notin> set (trace (run JSON_parse later g'))
                 \<and> HandleRequest (length (heap g)) p \<notin> set (trace (run JSON_parse later g'))\<close>
    if none: \<open>find_transport (mcp_session_id req) g = None\<close>
      and v: \<open>valid_run JSON_parse later g'\<close>
  proof -
    have u: \<open>untouched (run JSON_parse later g') (length (heap g))\<close>
      using cons' orphan [OF none] v by (rule untouched_run)
    have c: \<open>consistent (run JSON_parse later g')\<close>
      using cons' v by (rule consistent_run)
    have \<open>map_of (transports (run JSON_parse later g')) k \<noteq> Some (length (heap g))\<close>
      using c u by (rule untouched_not_registered)
    with u show ?thesis
      by (auto simp add: untouched_def handled_iff)
  qed
  show ?thesis
    using basic reuse create later by blast
qed


theorem unparseable_post_witness:
  \<open>valid_run example_parse [] example_gateway
   \<and> pathname (example_request ''POST'' None [''oops'']) = path example_gateway
   \<and> collected (example_request ''POST'' None [''oops'']) \<noteq> []
   \<and> example_parse (collected (example_request ''POST'' None [''oops''])) = None
   \<and> find_transport (mcp_session_id (example_request ''POST'' None [''oops''])) example_gateway
       = None
   \<and> snd (requestListener example_parse env_quiet (example_request ''POST'' None [''oops''])
         example_gateway) = orphaned\<lparr>console := [''Error handling request:'']\<rparr>
   \<and> valid_run example_parse [Stop] (orphaned\<lparr>console := [''Error handling request:'']\<rparr>)
   \<and> map_of (transports (run example_parse [Stop]
         (orphaned\<lparr>console := [''Error handling request:'']\<rparr>))) ''s1'' \<noteq> Some 0
   \<and> CloseCall 0 \<notin> set (trace (run example_parse [Stop]
         (orphaned\<lparr>console := [''Error handling request:'']\<rparr>)))
   \<and> valid_run example_parse example_run example_gateway
   \<and> find_transport (mcp_session_id (example_request ''POST'' (Some ''s1'') [''oops'']))
         one_session = Some 0
   \<and> transports (snd (requestListener example_parse env_quiet
         (example_request ''POST'' (Some ''s1'') [''oops'']) one_session))
       = transports one_session
   \<and> trace (snd (requestListener example_parse env_quiet
         (example_request ''POST'' (Some ''s1'') [''oops'']) one_session))
       = trace one_session @ [ReadBody]\<close>
proof -
  let ?bad = \<open>example_request ''POST'' None [''oops'']\<close>
  let ?bad1 = \<open>example_request ''POST'' (Some ''s1'') [''oops'']\<close>
  let ?g' = \<open>orphaned\<lparr>console := [''Error handling request:'']\<rparr>\<close>
  have v0: \<open>valid_run example_parse [] (createMcpHttpServer \<lparr>opt_port = None, opt_path = None\<rparr>)\<close>
    by simp
  have g0: \<open>example_gateway
      = run example_parse [] (createMcpHttpServer \<lparr>opt_port = None, opt_path = None\<rparr>)\<close>
    by (simp add: example_gateway_def)
  have v1: \<open>valid_run example_parse example_run
      (createMcpHttpServer \<lparr>opt_port = None, opt_path = None\<rparr>)\<close>
    using example_run_valid by (simp add: example_gateway_def)
  have g1: \<open>one_session
      = run example_parse example_run (createMcpHttpServer \<lparr>opt_port = None, opt_path = None\<rparr>)\<close>
    using example_run_state by (simp add: example_gateway_def)
  have m: \<open>req_method ?bad = ''POST''\<close> \<open>req_method ?bad1 = ''POST''\<close>
    by (simp_all add: example_request_def)
  have pa: \<open>pathname ?bad = path example_gateway\<close> \<open>pathname ?bad1 = path one_session\<close>
    by (simp_all add: example_request_def example_gateway_def createMcpHttpServer_def
        one_session_def)
  have se: \<open>\<not> stream_error ?bad\<close> \<open>\<not> stream_error ?bad1\<close>
    by (simp_all add: example_request_def)
  have ne: \<open>collected ?bad \<noteq> []\<close> \<open>collected ?bad1 \<noteq> []\<close>
    by (simp_all add: example_request_def utf8_defs)
  have un: \<open>example_parse (collected ?bad) = None\<close>
    \<open>example_parse (collected ?bad1) = None\<close>
    by (simp_all add: example_request_def example_parse_def utf8_defs)
  have s: \<open>snd (requestListener example_parse env_quiet ?bad example_gateway) = ?g'\<close>
    by (simp add: gateway_defs example_defs orphaned_def Let_def)
  have f0: \<open>find_transport (mcp_session_id ?bad) example_gateway = None\<close>
    by (simp add: find_transport_def example_request_def)
  have f1: \<open>find_transport (mcp_session_id ?bad1) one_session = Some 0\<close>
    by (simp add: find_transport_def example_request_def one_session_def)
  have l: \<open>valid_run example_parse [Stop] ?g'\<close>
    by (simp add: op_ok_def)
  have h0: \<open>length (heap example_gateway) = 0\<close>
    by (simp add: example_gateway_def createMcpHttpServer_def)
  have a: \<open>map_of (transports (run example_parse [Stop] ?g')) ''s1'' \<noteq> Some 0
      \<and> CloseCall 0 \<notin> set (trace (run example_parse [Stop] ?g'))\<close>
    using unparseable_post [OF v0 g0 m(1) pa(1) se(1) ne(1) un(1) s [symmetric],
        where later = "[Stop]" and k = "''s1''" and p = None] f0 l
    by (simp only: h0 simp_thms)
  have b: \<open>transports (snd (requestListener example_parse env_quiet ?bad1 one_session))
       = transports one_session
      \<and> trace (snd (requestListener example_parse env_quiet ?bad1 one_session))
       = trace one_session @ [ReadBody]\<close>
    using unparseable_post [OF v1 g1 m(2) pa(2) se(2) ne(2) un(2) refl,
        where env = env_quiet and later = "[]" and k = "''s1''" and p = None] f1
    by simp
  show ?thesis
    using a b pa(1) ne(1) un(1) f0 f1 s l example_run_valid by simp
qed

section \<open>Further properties of the listener and the registry\<close>

text \<open>
  A request to any path other than the configured one is answered 404 with the body
  \<^verbatim>\<open>{"error":"Not found"}\<close>, and the state of the gateway is left as it was.
\<close>

theorem other_path_404:
  assumes \<open>pathname req \<noteq> path g\<close>
  shows \<open>requestListener JSON_parse env req g =
    (\<lparr>statusCode = 404, contentType = Some ''application/json'', headersSent = True,
      body = ''{"error":"Not found"}'', ended = True\<rparr>, g)\<close>
  using assms
  by (simp add: requestListener_def sendJson_def new_response_def stringify_not_found)

theorem other_path_404_witness:
  \<open>pathname ((example_request ''POST'' (Some ''s1'') [''{}''])\<lparr>pathname := ''/other''\<rparr>)
     \<noteq> path one_session
   \<and> requestListener example_parse (env_open ''s2'')
        ((example_request ''POST'' (Some ''s1'') [''{}''])\<lparr>pathname := ''/other''\<rparr>) one_session =
    (\<lparr>statusCode = 404, contentType = Some ''application/json'', headersSent = True,
      body = ''{"error":"Not found"}'', ended = True\<rparr>, one_session)\<close>
  using other_path_404 [of "(example_request ''POST'' (Some ''s1'') [''{}''])\<lparr>pathname := ''/other''\<rparr>"
      one_session example_parse "env_open ''s2''"]
  by (simp add: example_request_def one_session_def)

text \<open>
  In a state that a run has reached, once the channel registered under the id \<open>Y\<close> fires
  its closed callback, \<open>Y\<close> is no longer a key of the registry, and a GET that carries
  \<open>Y\<close> is answered with the 400 response for an invalid or missing session id.
\<close>

theorem closed_session_is_gone:
  assumes \<open>valid_run JSON_parse ops (createMcpHttpServer options)\<close>
    and \<open>g = run JSON_parse ops (createMcpHttpServer options)\<close>
    and \<open>map_of (transports g) Y = Some t\<close>
    and \<open>pathname req = path g\<close> and \<open>req_method req = ''GET''\<close>
    and \<open>mcp_session_id req = Some Y\<close>
  shows \<open>map_of (transports (fire t Close g)) Y = None
       \<and> fst (requestListener JSON_parse env req (fire t Close g)) =
          \<lparr>statusCode = 400, contentType = Some ''application/json'', headersSent = True,
            body = ''{"jsonrpc":"2.0","error":{"code":-32000,"message":"Invalid or missing session ID"},"id":null}'',
            ended = True\<rparr>\<close>
proof -
  have c: \<open>consistent g\<close>
    using assms(1,2) by (simp add: consistent_reachable)
  with assms(3) have t: \<open>t < length (heap g)\<close> and sid: \<open>sessionId (heap g ! t) = Some Y\<close>
    by (simp_all add: consistent_registered)
  have \<open>Some [] \<notin> set (map sessionId (heap g))\<close>
    using c by (simp add: consistent_def consistent_heap_def)
  with t sid have \<open>Y \<noteq> []\<close>
    by (metis length_map nth_map nth_mem)
  with t sid have gone: \<open>map_of (transports (fire t Close g)) Y = None\<close>
    by (simp add: fire_def onclose_def mark_closed_def sessionId_of_def delete_conv')
  then have \<open>find_transport (mcp_session_id req) (fire t Close g) = None\<close>
    using assms(6) by (simp add: find_transport_def)
  moreover have \<open>path (fire t Close g) = path g\<close>
    by (simp add: fire_def onclose_def mark_closed_def split: option.splits)
  ultimately show ?thesis
    using gone assms(4,5)
    by (simp add: requestListener_def handleMcpRequest_def sendJson_def new_response_def
        stringify_invalid_session)
qed

theorem closed_session_is_gone_witness:
  \<open>valid_run example_parse example_run example_gateway
   \<and> map_of (transports one_session) ''s1'' = Some 0
   \<and> map_of (transports (fire 0 Close one_session)) ''s1'' = None
   \<and> fst (requestListener example_parse env_quiet (example_request ''GET'' (Some ''s1'') [])
         (fire 0 Close one_session)) =
       \<lparr>statusCode = 400, contentType = Some ''application/json'', headersSent = True,
         body = ''{"jsonrpc":"2.0","error":{"code":-32000,"message":"Invalid or missing session ID"},"id":null}'',
         ended = True\<rparr>\<close>
proof -
  have v1: \<open>valid_run example_parse example_run
      (createMcpHttpServer \<lparr>opt_port = None, opt_path = None\<rparr>)\<close>
    using example_run_valid by (simp add: example_gateway_def)
  have g1: \<open>one_session
      = run example_parse example_run (createMcpHttpServer \<lparr>opt_port = None, opt_path = None\<rparr>)\<close>
    using example_run_state by (simp add: example_gateway_def)
  have r: \<open>map_of (transports one_session) ''s1'' = Some 0\<close>
    by (simp add: one_session_def)
  have q: \<open>pathname (example_request ''GET'' (Some ''s1'') []) = path one_session\<close>
    \<open>req_method (example_request ''GET'' (Some ''s1'') []) = ''GET''\<close>
    \<open>mcp_session_id (example_request ''GET'' (Some ''s1'') []) = Some ''s1''\<close>
    by (simp_all add: example_request_def one_session_def)
  show ?thesis
    using closed_session_is_gone [OF v1 g1 r q, of env_quiet] example_run_valid r by simp
qed

end
